theory Spec2Isabelle
  imports Main "HOL-Library.Word"
begin

section \<open>Results and errors\<close>

text \<open>
  Go functions that return \<open>(value, error)\<close> are modelled with a sum type: \<open>Inl\<close> carries
  the error, \<open>Inr\<close> the value. A run-time panic (division by zero in \<open>math/big\<close>, an index
  out of range, a nil dereference) is the separate value \<open>ErrPanic\<close>: it is not an error
  the function returns.
\<close>

datatype error =
    ErrBound
  | ErrMalformedPubKey
  | ErrMalformedSecKey
  | ErrMalformedInput
  | ErrMalformedDecKey
  | ErrMalformedCipher
  | ErrDimMismatch
  | ErrRandomness
  | ErrEmptyMsp
  | ErrDuplicateAttrib
  | ErrEmptyMessage
  | ErrWrongLambdaLen
  | ErrWrongOmegaLen
  | ErrAttribNotInPubKeys
  | ErrEmptyAuthAttribs
  | ErrEmptyId
  | ErrEmptyGid
  | ErrEmptyAttribs
  | ErrNilScheme
  | ErrHash
  | ErrAttribNotInSecKey
  | ErrEmptyKeys
  | ErrGidMismatch
  | ErrNoSolution
  | ErrAttribNotInCipher
  | ErrMissingIntermediate
  | ErrFailedToDecrypt
  | ErrPanic

definition bind_err :: "'e + 'a \<Rightarrow> ('a \<Rightarrow> 'e + 'b) \<Rightarrow> 'e + 'b" where
  "bind_err r f = (case r of Inl e \<Rightarrow> Inl e | Inr x \<Rightarrow> f x)"

fun traverse :: "('a \<Rightarrow> 'e + 'b) \<Rightarrow> 'a list \<Rightarrow> 'e + 'b list" where
  "traverse f [] = Inr []"
| "traverse f (x # xs) =
     bind_err (f x) (\<lambda>y. bind_err (traverse f xs) (\<lambda>ys. Inr (y # ys)))"

text \<open>
  \<open>v, _ := f(...)\<close>: the error is dropped and, on failure, the Go value is the nil
  slice, which behaves as the empty one.
\<close>

definition drop_err :: "'e + 'a list \<Rightarrow> 'a list" where
  "drop_err r = (case r of Inl e \<Rightarrow> [] | Inr v \<Rightarrow> v)"

section \<open>Big integers (\<open>math/big\<close>)\<close>

text \<open>
  \<open>big.Int.Div\<close> and \<open>big.Int.Mod\<close> implement Euclidean division: the remainder is in
  \<open>[0, |y|)\<close>; both panic for \<open>y = 0\<close>.
\<close>

definition big_Div :: "int \<Rightarrow> int \<Rightarrow> error + int" where
  "big_Div x y =
     (if y = 0 then Inl ErrPanic
      else if 0 < y then Inr (x div y)
      else Inr (- (x div (- y))))"

definition big_Mod :: "int \<Rightarrow> int \<Rightarrow> error + int" where
  "big_Mod x y = (if y = 0 then Inl ErrPanic else Inr (x mod \<bar>y\<bar>))"

section \<open>Vectors and matrices (package \<open>data\<close>)\<close>

type_synonym Vector = "int list"
type_synonym Matrix = "int list list"

text \<open>
  Modelled from the spec: the package \<open>data\<close> (vectors and matrices of big integers) is
  not among the sources. Section 4.2 of the specification lists its operations:
  elementwise \<open>add\<close>, \<open>mod\<close> and \<open>apply\<close>, \<open>transpose\<close>, \<open>mulVec\<close> (the standard
  matrix-vector product), \<open>rows\<close>, \<open>cols\<close>, \<open>checkDims\<close>, \<open>checkBound\<close>
  (\<open>|c| \<le> bound\<close> for every coordinate, section 4.4.2) and the negacyclic
  convolution. Where the specification leaves operands of unequal length open, the
  operations with an error result return \<open>ErrDimMismatch\<close> and the others panic.
\<close>

definition Rows :: "Matrix \<Rightarrow> nat" where
  "Rows m = length m"

definition Cols :: "Matrix \<Rightarrow> nat" where
  "Cols m = (case m of [] \<Rightarrow> 0 | r # _ \<Rightarrow> length r)"

definition CheckDims :: "Matrix \<Rightarrow> int \<Rightarrow> int \<Rightarrow> bool" where
  "CheckDims m r c \<longleftrightarrow> int (Rows m) = r \<and> int (Cols m) = c"

definition vec_CheckBound :: "Vector \<Rightarrow> int \<Rightarrow> error + unit" where
  "vec_CheckBound v b = (if list_all (\<lambda>c. \<bar>c\<bar> \<le> b) v then Inr () else Inl ErrBound)"

definition mat_CheckBound :: "Matrix \<Rightarrow> int \<Rightarrow> error + unit" where
  "mat_CheckBound m b =
     (if list_all (\<lambda>v. list_all (\<lambda>c. \<bar>c\<bar> \<le> b) v) m then Inr () else Inl ErrBound)"

definition vec_Mod :: "Vector \<Rightarrow> int \<Rightarrow> error + Vector" where
  "vec_Mod v q = traverse (\<lambda>c. big_Mod c q) v"

definition mat_Mod :: "Matrix \<Rightarrow> int \<Rightarrow> error + Matrix" where
  "mat_Mod m q = traverse (\<lambda>v. vec_Mod v q) m"

definition vec_Add :: "Vector \<Rightarrow> Vector \<Rightarrow> error + Vector" where
  "vec_Add v w = (if length v = length w then Inr (map2 (+) v w) else Inl ErrPanic)"

definition mat_Add :: "Matrix \<Rightarrow> Matrix \<Rightarrow> error + Matrix" where
  "mat_Add m k =
     (if Rows m = Rows k \<and> Cols m = Cols k then traverse (\<lambda>(v, w). vec_Add v w) (zip m k)
      else Inl ErrDimMismatch)"

definition Dot :: "Vector \<Rightarrow> Vector \<Rightarrow> int" where
  "Dot v w = sum_list (map2 (*) v w)"

definition MulVec :: "Matrix \<Rightarrow> Vector \<Rightarrow> error + Vector" where
  "MulVec m v = (if Cols m = length v then Inr (map (\<lambda>row. Dot row v) m) else Inl ErrDimMismatch)"

definition Transpose :: "Matrix \<Rightarrow> Matrix" where
  "Transpose m = map (\<lambda>i. map (\<lambda>row. row ! i) m) [0..<Cols m]"

text \<open>
  Negacyclic convolution in \<open>Z[x]/(x^n + 1)\<close>: coefficient \<open>k\<close> of the product sums
  \<open>a_i * b_j\<close> over \<open>i + j \<equiv> k (mod n)\<close>, with the sign flipped when \<open>i + j \<ge> n\<close>.
\<close>

definition ring_term :: "nat \<Rightarrow> Vector \<Rightarrow> Vector \<Rightarrow> nat \<Rightarrow> nat \<Rightarrow> nat \<Rightarrow> int" where
  "ring_term n a b k i j =
     (if (i + j) mod n = k
      then (if i + j < n then a ! i * b ! j else - (a ! i * b ! j))
      else 0)"

definition ring_coeff :: "nat \<Rightarrow> Vector \<Rightarrow> Vector \<Rightarrow> nat \<Rightarrow> int" where
  "ring_coeff n a b k =
     sum_list (map (\<lambda>i. sum_list (map (\<lambda>j. ring_term n a b k i j) [0..<n])) [0..<n])"

definition MulAsPolyInRing :: "Vector \<Rightarrow> Vector \<Rightarrow> error + Vector" where
  "MulAsPolyInRing a b =
     (if length a = length b then Inr (map (ring_coeff (length a) a b) [0..<length a])
      else Inl ErrDimMismatch)"

text \<open>
  Modelled from the spec: the samplers of package \<open>sample\<close> are not among the sources.
  A random source is the sequence of its successive samples, or \<open>None\<close> when the
  underlying generator fails; \<open>NewRandomVector n\<close> takes the first \<open>n\<close> samples.
\<close>

definition NewRandomVector :: "int \<Rightarrow> (nat \<Rightarrow> int) option \<Rightarrow> error + Vector" where
  "NewRandomVector n src =
     (if n < 0 then Inl ErrPanic
      else case src of None \<Rightarrow> Inl ErrRandomness | Some f \<Rightarrow> Inr (map f [0..<nat n]))"

definition NewRandomMatrix :: "int \<Rightarrow> int \<Rightarrow> (nat \<Rightarrow> nat \<Rightarrow> int) option \<Rightarrow> error + Matrix" where
  "NewRandomMatrix r c src =
     (if r < 0 \<or> c < 0 then Inl ErrPanic
      else case src of None \<Rightarrow> Inl ErrRandomness
           | Some f \<Rightarrow> Inr (map (\<lambda>i. map (f i) [0..<nat c]) [0..<nat r]))"

section \<open>Ring-LWE inner-product scheme\<close>

text \<open>
  \<open>RingLWEParams\<close>: the Go \<open>int\<close> fields \<open>L\<close> and \<open>N\<close> are integers (they may be negative
  in a hand-built record); the widths are \<open>big.Float\<close> values of an abstract type \<open>'f\<close>.
\<close>

record 'f RingLWEParams =
  Params_L :: int
  Params_N :: int
  Params_Sigma1 :: 'f
  Params_Sigma2 :: 'f
  Params_Sigma3 :: 'f
  Params_BoundX :: int
  Params_BoundY :: int
  Params_P :: int
  Params_Q :: int
  Params_A :: Vector

text \<open>\<open>center\<close>: \<open>t(x) = floor(x * q / p) % q\<close> applied to every entry of \<open>X\<close>.\<close>

definition center_elem :: "'f RingLWEParams \<Rightarrow> int \<Rightarrow> error + int" where
  "center_elem s x =
     bind_err (big_Div (x * Params_Q s) (Params_P s)) (\<lambda>t. big_Mod t (Params_Q s))"

definition center :: "'f RingLWEParams \<Rightarrow> Matrix \<Rightarrow> error + Matrix" where
  "center s X = traverse (traverse (center_elem s)) X"

text \<open>
  The draws of one call of \<open>Encrypt\<close>: the vector \<open>r\<close> and the vector \<open>e\<close> come from the
  sampler of width \<open>Sigma2\<close>, the matrix \<open>E\<close> from the sampler of width \<open>Sigma3\<close>. The
  widths only configure the samplers, whose outputs are these draws.
\<close>

record enc_draws =
  draw_r :: "(nat \<Rightarrow> int) option"
  draw_E :: "(nat \<Rightarrow> nat \<Rightarrow> int) option"
  draw_e :: "(nat \<Rightarrow> int) option"

definition enc_row :: "Matrix \<Rightarrow> Vector \<Rightarrow> Matrix \<Rightarrow> nat \<Rightarrow> error + Vector" where
  "enc_row PK r E i = vec_Add (drop_err (MulAsPolyInRing (PK ! i) r)) (E ! i)"

definition RingLWE_Encrypt :: "'f RingLWEParams \<Rightarrow> enc_draws \<Rightarrow> Matrix \<Rightarrow> Matrix \<Rightarrow> error + Matrix" where
  "RingLWE_Encrypt s rnd X PK =
     bind_err (mat_CheckBound X (Params_BoundX s)) (\<lambda>_.
     if \<not> CheckDims PK (Params_L s) (Params_N s) then Inl ErrMalformedPubKey
     else if \<not> CheckDims X (Params_L s) (Params_N s) then Inl ErrMalformedInput
     else
       bind_err (NewRandomVector (Params_N s) (draw_r rnd)) (\<lambda>r.
       bind_err (NewRandomMatrix (Params_L s) (Params_N s) (draw_E rnd)) (\<lambda>E.
       bind_err (traverse (enc_row PK r E) [0..<nat (Params_L s)]) (\<lambda>CT0.
       bind_err (mat_Mod CT0 (Params_Q s)) (\<lambda>CT0.
       bind_err (center s X) (\<lambda>T.
       bind_err (mat_Mod (drop_err (mat_Add CT0 T)) (Params_Q s)) (\<lambda>CT0.
       bind_err (NewRandomVector (Params_N s) (draw_e rnd)) (\<lambda>e.
       bind_err (vec_Add (drop_err (MulAsPolyInRing (Params_A s) r)) e) (\<lambda>ct1.
       bind_err (vec_Mod ct1 (Params_Q s)) (\<lambda>ct1.
       Inr (CT0 @ [ct1])))))))))))"

definition dec_round :: "'f RingLWEParams \<Rightarrow> int \<Rightarrow> int \<Rightarrow> error + int" where
  "dec_round s halfQ x =
     (let x1 = (if halfQ < x then x - Params_Q s else x);
          x2 = x1 * Params_P s;
          x3 = x2 + halfQ
      in big_Div x3 (Params_Q s))"

definition RingLWE_Decrypt :: "'f RingLWEParams \<Rightarrow> Matrix \<Rightarrow> Vector \<Rightarrow> Vector \<Rightarrow> error + Vector" where
  "RingLWE_Decrypt s CT skY y =
     bind_err (vec_CheckBound y (Params_BoundY s)) (\<lambda>_.
     if int (length skY) \<noteq> Params_N s then Inl ErrMalformedDecKey
     else if int (length y) \<noteq> Params_L s then Inl ErrMalformedInput
     else if \<not> CheckDims CT (Params_L s + 1) (Params_N s) then Inl ErrMalformedCipher
     else
       let CT0 = take (nat (Params_L s)) CT;
           ct1 = CT ! nat (Params_L s);
           CT0Trans = Transpose CT0
       in
       bind_err (vec_Mod (drop_err (MulVec CT0Trans y)) (Params_Q s)) (\<lambda>CT0TransMulY.
       let ct1MulSkY = map uminus (drop_err (MulAsPolyInRing ct1 skY)) in
       bind_err (vec_Add CT0TransMulY ct1MulSkY) (\<lambda>d.
       bind_err (vec_Mod d (Params_Q s)) (\<lambda>d.
       bind_err (big_Div (Params_Q s) 2) (\<lambda>halfQ.
       traverse (dec_round s halfQ) d)))))"


subsection \<open>Parameter search\<close>

text \<open>
  \<open>NewRingLWE\<close> computes with \<open>float64\<close> (type \<open>'d\<close>) and \<open>big.Float\<close> (type \<open>'f\<close>).
  Their primitives are parameters of the model; the control flow, the integer
  arithmetic and the order of the floating-point operations are those of the code.
  \<open>big.NewFloat\<close> panics on NaN and \<open>big.Float.Sqrt\<close> on a negative argument
  (\<open>None\<close>). \<open>attack_found fsec n qFF sigmaPrimeQF\<close> stands for the two nested loops
  over the block size \<open>b\<close> and the dimension \<open>m\<close>, with \<open>bb = fsec / 0.265\<close>: it holds
  when some pair has \<open>left < right\<close>, that is, when the loops leave \<open>safe = false\<close>.
  The Go \<open>int\<close> values \<open>sec\<close>, \<open>l\<close> and \<open>n\<close> are 64-bit words read as signed.
\<close>

record ('d, 'f) float_ops =
  Float64_of_int :: "int \<Rightarrow> 'd"
  math_Sqrt :: "'d \<Rightarrow> 'd"
  big_NewFloat :: "'d \<Rightarrow> 'f option"
  big_SetInt :: "int \<Rightarrow> 'f"
  big_Float_Mul :: "'f \<Rightarrow> 'f \<Rightarrow> 'f"
  big_Float_Add :: "'f \<Rightarrow> 'f \<Rightarrow> 'f"
  big_Float_Sqrt :: "'f \<Rightarrow> 'f option"
  big_Float_Int :: "'f \<Rightarrow> int"
  big_Float_Float64 :: "'f \<Rightarrow> 'd"
  attack_found :: "'d \<Rightarrow> int \<Rightarrow> 'd \<Rightarrow> 'd \<Rightarrow> bool"

definition NewFloat :: "('d, 'f) float_ops \<Rightarrow> 'd \<Rightarrow> error + 'f" where
  "NewFloat ops d = (case big_NewFloat ops d of None \<Rightarrow> Inl ErrPanic | Some f \<Rightarrow> Inr f)"

definition Float_Sqrt :: "('d, 'f) float_ops \<Rightarrow> 'f \<Rightarrow> error + 'f" where
  "Float_Sqrt ops x = (case big_Float_Sqrt ops x of None \<Rightarrow> Inl ErrPanic | Some f \<Rightarrow> Inr f)"

text \<open>The values one iteration of the search loop leaves in \<open>n\<close>, \<open>sigma2\<close>, \<open>sigma3\<close>, \<open>q\<close>, \<open>safe\<close>.\<close>

record 'f search_iter =
  it_n :: "64 word"
  it_sigma2 :: 'f
  it_sigma3 :: 'f
  it_q :: int
  it_safe :: bool

definition search_body :: "('d, 'f) float_ops \<Rightarrow> 64 word \<Rightarrow> 64 word \<Rightarrow> int \<Rightarrow> int
    \<Rightarrow> 'f \<Rightarrow> 'f \<Rightarrow> 'f \<Rightarrow> 'f \<Rightarrow> nat \<Rightarrow> error + 'f search_iter" where
  "search_body ops sec l boundY K kappa kappaSqrt sigma sigma1 pow =
     (let n = push_bit pow (1 :: 64 word) in
      bind_err (NewFloat ops (math_Sqrt ops (Float64_of_int ops (sint (2 * (l + 2) * n * n))))) (\<lambda>f1.
      let sigma2 = big_Float_Mul ops f1 sigma;
          sigma2 = big_Float_Mul ops sigma2 sigma1;
          sigma2 = big_Float_Mul ops sigma2 kappaSqrt
      in
      bind_err (NewFloat ops (math_Sqrt ops (Float64_of_int ops 2))) (\<lambda>f2.
      let sigma3 = big_Float_Mul ops sigma2 f2;
          qFloat1 = big_Float_Mul ops sigma1 sigma2;
          qFloat1 = big_Float_Mul ops qFloat1 kappa
      in
      bind_err (NewFloat ops (Float64_of_int ops (sint (2 * n)))) (\<lambda>f3.
      let qFloat1 = big_Float_Mul ops qFloat1 f3;
          qFloat2 = big_Float_Mul ops kappaSqrt sigma3;
          qFloat = big_Float_Add ops qFloat1 qFloat2;
          qFloat = big_Float_Mul ops qFloat (big_SetInt ops boundY)
      in
      bind_err (NewFloat ops (Float64_of_int ops (sint (2 * l)))) (\<lambda>f4.
      let qFloat = big_Float_Mul ops qFloat f4;
          q = big_Float_Int ops qFloat;
          q = q * K;
          qFF = big_Float_Float64 ops (big_SetInt ops q);
          sigmaPrimeQF = big_Float_Float64 ops sigma;
          safe = (\<not> attack_found ops (Float64_of_int ops (sint sec)) (sint n) qFF sigmaPrimeQF)
      in
      Inr \<lparr>it_n = n, it_sigma2 = sigma2, it_sigma3 = sigma3, it_q = q, it_safe = safe\<rparr>)))))"

text \<open>
  \<open>for pow := 6; pow < 20; pow++ { ...; if safe { break } }\<close> over the list of the
  exponents still to try; the state is what the last iteration run so far has left.
\<close>

fun search :: "(nat \<Rightarrow> error + 'f search_iter) \<Rightarrow> nat list \<Rightarrow> 'f search_iter option
    \<Rightarrow> error + 'f search_iter option" where
  "search body [] st = Inr st"
| "search body (pow # pows) st =
     bind_err (body pow) (\<lambda>it. if it_safe it then Inr (Some it) else search body pows (Some it))"

definition NewRingLWE :: "('d, 'f) float_ops \<Rightarrow> (nat \<Rightarrow> int) option \<Rightarrow> 64 word \<Rightarrow> 64 word \<Rightarrow> int \<Rightarrow> int
    \<Rightarrow> error + 'f RingLWEParams" where
  "NewRingLWE ops src sec l boundX boundY =
     (let K = boundX * boundY;
          K = K * sint (2 * l)
      in
      bind_err (NewFloat ops (Float64_of_int ops (sint sec))) (\<lambda>kappa.
      bind_err (Float_Sqrt ops kappa) (\<lambda>kappaSqrt.
      bind_err (NewFloat ops (Float64_of_int ops 1)) (\<lambda>sigma.
      bind_err (NewFloat ops (math_Sqrt ops (Float64_of_int ops (sint (4 * l))))) (\<lambda>f0.
      let sigma1 = big_Float_Mul ops f0 sigma;
          sigma1 = big_Float_Mul ops sigma1 (big_SetInt ops boundX)
      in
      bind_err (search (search_body ops sec l boundY K kappa kappaSqrt sigma sigma1) [6..<20] None)
        (\<lambda>st.
      case st of
        None \<Rightarrow> Inl ErrPanic
      | Some it \<Rightarrow>
          bind_err (NewRandomVector (sint (it_n it)) src) (\<lambda>randVec.
          Inr \<lparr>Params_L = sint l, Params_N = sint (it_n it), Params_Sigma1 = sigma1,
               Params_Sigma2 = it_sigma2 it, Params_Sigma3 = it_sigma3 it,
               Params_BoundX = boundX, Params_BoundY = boundY, Params_P = K,
               Params_Q = it_q it, Params_A = randVec\<rparr>)))))))"

text \<open>
  The specification's reading of \<open>Decrypt\<close> (section 4.4.2): \<open>d = (C0\<^sup>T y - c1 * sk\<^sub>y) mod Q\<close>
  with the plain matrix-vector product and the ring product, then the centred lift and
  the rounding \<open>floor((d * P + floor(Q/2)) / Q)\<close> in every coordinate.
\<close>

definition dec_d :: "'f RingLWEParams \<Rightarrow> Matrix \<Rightarrow> Vector \<Rightarrow> Vector \<Rightarrow> nat \<Rightarrow> int" where
  "dec_d s CT skY y k =
     (Dot (map (\<lambda>row. row ! k) (take (nat (Params_L s)) CT)) y
        - ring_coeff (nat (Params_N s)) (CT ! nat (Params_L s)) skY k) mod Params_Q s"

definition dec_out :: "'f RingLWEParams \<Rightarrow> int \<Rightarrow> int" where
  "dec_out s d =
     ((if Params_Q s div 2 < d then d - Params_Q s else d) * Params_P s + Params_Q s div 2)
        div Params_Q s"

definition Decrypt_spec :: "'f RingLWEParams \<Rightarrow> Matrix \<Rightarrow> Vector \<Rightarrow> Vector \<Rightarrow> Vector" where
  "Decrypt_spec s CT skY y = map (\<lambda>k. dec_out s (dec_d s CT skY y k)) [0..<nat (Params_N s)]"

text \<open>
  The specification's reading of \<open>Encrypt\<close>: row \<open>i\<close> of the first block is
  \<open>(PK\<^sub>i * r + E\<^sub>i + T\<^sub>i) mod Q\<close> with \<open>T = center(X)\<close>,
  \<open>center(x) = floor(x * Q / P) mod Q\<close>; the last row is \<open>(A * r + e) mod Q\<close>.
\<close>

definition center_val :: "'f RingLWEParams \<Rightarrow> int \<Rightarrow> int" where
  "center_val s x = (x * Params_Q s div Params_P s) mod Params_Q s"

definition enc_top :: "'f RingLWEParams \<Rightarrow> (nat \<Rightarrow> int) \<Rightarrow> (nat \<Rightarrow> nat \<Rightarrow> int) \<Rightarrow> Matrix \<Rightarrow> Matrix
    \<Rightarrow> nat \<Rightarrow> nat \<Rightarrow> int" where
  "enc_top s r E X PK i k =
     (ring_coeff (nat (Params_N s)) (PK ! i) (map r [0..<nat (Params_N s)]) k
        + E i k + center_val s (X ! i ! k)) mod Params_Q s"

definition enc_last :: "'f RingLWEParams \<Rightarrow> (nat \<Rightarrow> int) \<Rightarrow> (nat \<Rightarrow> int) \<Rightarrow> nat \<Rightarrow> int" where
  "enc_last s r e k =
     (ring_coeff (nat (Params_N s)) (Params_A s) (map r [0..<nat (Params_N s)]) k + e k)
        mod Params_Q s"

definition Encrypt_spec :: "'f RingLWEParams \<Rightarrow> (nat \<Rightarrow> int) \<Rightarrow> (nat \<Rightarrow> nat \<Rightarrow> int) \<Rightarrow> (nat \<Rightarrow> int)
    \<Rightarrow> Matrix \<Rightarrow> Matrix \<Rightarrow> Matrix" where
  "Encrypt_spec s r E e X PK =
     map (\<lambda>i. map (enc_top s r E X PK i) [0..<nat (Params_N s)]) [0..<nat (Params_L s)]
       @ [map (enc_last s r e) [0..<nat (Params_N s)]]"

text \<open>A matrix of \<open>r\<close> rows that all have length \<open>c\<close>.\<close>

definition rect :: "Matrix \<Rightarrow> nat \<Rightarrow> nat \<Rightarrow> bool" where
  "rect m r c \<longleftrightarrow> length m = r \<and> list_all (\<lambda>row. length row = c) m"


section \<open>Multi-authority attribute-based encryption\<close>

subsection \<open>External libraries\<close>

text \<open>
  The pairing library \<open>bn256\<close>, \<open>crypto/aes\<close>, \<open>crypto/cipher\<close> and \<open>crypto/sha256\<close> are
  external. The groups \<open>G1\<close>, \<open>G2\<close> and \<open>GT\<close> are cyclic of the same order \<open>Order\<close>,
  generated by \<open>g1\<close>, \<open>g2\<close> and \<open>e(g1, g2)\<close>; an element is represented by its discrete
  logarithm with respect to that generator, a residue modulo \<open>Order\<close>. The group law
  (\<open>Add\<close> in the library) is addition of residues, \<open>Neg\<close> is negation, \<open>ScalarMult\<close> is
  multiplication by the scalar and the bilinear map \<open>Pair\<close> multiplies the two
  logarithms. What \<open>ScalarMult\<close> returns for a negative scalar is left to the parameter
  \<open>NegScalarMult\<close>. \<open>HashG1\<close> is an arbitrary function into \<open>G1\<close> that may fail.
  \<open>Sum256\<close> stands for \<open>sha256.Sum256([]byte(x.String()))\<close> on an element of \<open>GT\<close>,
  \<open>CBCEncrypter\<close> and \<open>CBCDecrypter\<close> for AES in CBC mode under a key and an
  initialisation vector.

  Modelled from the spec: \<open>GaussianEliminationSolver\<close> of package \<open>data\<close> is not among
  the sources; it is a parameter that, by section 4.2, returns some \<open>x\<close> with
  \<open>A x = b (mod p)\<close> or fails when there is none (\<open>solves\<close> and \<open>solver_ok\<close> below).
\<close>

type_synonym bytes = string

record 'k lib =
  Order :: int
  NegScalarMult :: "int \<Rightarrow> int \<Rightarrow> int"
  HashG1 :: "string \<Rightarrow> int option"
  Sum256 :: "int \<Rightarrow> 'k"
  CBCEncrypter :: "'k \<Rightarrow> bytes \<Rightarrow> bytes \<Rightarrow> bytes"
  CBCDecrypter :: "'k \<Rightarrow> bytes \<Rightarrow> bytes \<Rightarrow> bytes"
  GaussianEliminationSolver :: "Matrix \<Rightarrow> Vector \<Rightarrow> int \<Rightarrow> Vector option"

definition grp_Add :: "'k lib \<Rightarrow> int \<Rightarrow> int \<Rightarrow> int" where
  "grp_Add lib x y = (x + y) mod Order lib"

definition grp_Neg :: "'k lib \<Rightarrow> int \<Rightarrow> int" where
  "grp_Neg lib x = (- x) mod Order lib"

definition ScalarMult :: "'k lib \<Rightarrow> int \<Rightarrow> int \<Rightarrow> int" where
  "ScalarMult lib x k = (if 0 \<le> k then (x * k) mod Order lib else NegScalarMult lib x k)"

definition ScalarBaseMult :: "'k lib \<Rightarrow> int \<Rightarrow> int" where
  "ScalarBaseMult lib k = ScalarMult lib 1 k"

definition Pair :: "'k lib \<Rightarrow> int \<Rightarrow> int \<Rightarrow> int" where
  "Pair lib x y = (x * y) mod Order lib"

definition BlockSize :: nat where
  "BlockSize = 16"

text \<open>
  \<open>CryptBlocks(dst, src)\<close> panics when \<open>src\<close> is not a whole number of blocks;
  \<open>NewCBCDecrypter\<close> panics when the initialisation vector is not one block long.
\<close>

definition CryptBlocks :: "(bytes \<Rightarrow> bytes) \<Rightarrow> bytes \<Rightarrow> error + bytes" where
  "CryptBlocks f src = (if length src mod BlockSize = 0 then Inr (f src) else Inl ErrPanic)"

subsection \<open>Data\<close>

record MAABE =
  maabe_P :: int
  maabe_g1 :: int
  maabe_g2 :: int
  maabe_gt :: int

definition NewMAABE :: "'k lib \<Rightarrow> MAABE" where
  "NewMAABE lib =
     (let gen1 = ScalarBaseMult lib 1; gen2 = ScalarBaseMult lib 1
      in \<lparr>maabe_P = Order lib, maabe_g1 = gen1, maabe_g2 = gen2, maabe_gt = Pair lib gen1 gen2\<rparr>)"

record MSP =
  Mat :: Matrix
  RowToAttrib :: "string list"

record MAABEPubKey =
  pk_Attribs :: "string list"
  EggToAlpha :: "string \<rightharpoonup> int"
  GToY :: "string \<rightharpoonup> int"

record MAABESecKey =
  sk_Attribs :: "string list"
  Alpha :: "string \<rightharpoonup> int"
  Y :: "string \<rightharpoonup> int"

record MAABEAuth =
  ID :: string
  Maabe :: "MAABE option"
  Pk :: MAABEPubKey
  Sk :: MAABESecKey

record MAABECipher =
  C0 :: int
  C1x :: "string \<rightharpoonup> int"
  C2x :: "string \<rightharpoonup> int"
  C3x :: "string \<rightharpoonup> int"
  Msp :: MSP
  SymEnc :: bytes
  Iv :: bytes

record MAABEKey =
  Gid :: string
  Attrib :: string
  Key :: int

subsection \<open>Encrypt\<close>

text \<open>
  The first loop of \<open>Encrypt\<close>: \<open>attribs\<close> is a \<open>map[string]bool\<close>, absent keys read as
  \<open>false\<close>; the loop fails at the first attribute seen before.
\<close>

fun attribs_fresh :: "string list \<Rightarrow> (string \<Rightarrow> bool) \<Rightarrow> bool" where
  "attribs_fresh [] attribs = True"
| "attribs_fresh (i # rest) attribs =
     (if attribs i then False else attribs_fresh rest (attribs(i := True)))"

text \<open>
  \<open>for i, at := range RowToAttrib { m[at] = xs[i] }\<close>: an index beyond \<open>xs\<close> panics.
\<close>

fun index_map :: "string list \<Rightarrow> 'a list \<Rightarrow> (string \<rightharpoonup> 'a) \<Rightarrow> error + (string \<rightharpoonup> 'a)" where
  "index_map [] xs m = Inr m"
| "index_map (at # ats) [] m = Inl ErrPanic"
| "index_map (at # ats) (x # xs) m = index_map ats xs (m(at \<mapsto> x))"

text \<open>A lookup through a pointer-valued map that is dereferenced: \<open>nil\<close> panics.\<close>

definition deref :: "'a option \<Rightarrow> error + 'a" where
  "deref v = (case v of None \<Rightarrow> Inl ErrPanic | Some x \<Rightarrow> Inr x)"

text \<open>The draws of one call of \<open>Encrypt\<close>, in the order the code makes them.\<close>

record maabe_draws =
  draw_symKey :: "int option"
  draw_iv :: "(nat \<Rightarrow> char) option"
  draw_v :: "(nat \<Rightarrow> int) option"
  draw_w :: "(nat \<Rightarrow> int) option"
  draw_rI :: "(nat \<Rightarrow> int) option"

text \<open>The body of the last loop for one attribute and the public key that knows it.\<close>

definition enc_attrib :: "'k lib \<Rightarrow> MAABE \<Rightarrow> MAABEPubKey \<Rightarrow> (string \<rightharpoonup> int) \<Rightarrow> (string \<rightharpoonup> int)
    \<Rightarrow> (string \<rightharpoonup> int) \<Rightarrow> string \<Rightarrow> error + (int \<times> int \<times> int)" where
  "enc_attrib lib a pk lambda omega r at =
     bind_err (deref (lambda at)) (\<lambda>lam.
     bind_err (deref (omega at)) (\<lambda>om.
     let tmpLambda = (if 0 \<le> lam then ScalarMult lib (maabe_gt a) lam
                      else ScalarMult lib (grp_Neg lib (maabe_gt a)) \<bar>lam\<bar>);
         tmpOmega = (if 0 \<le> om then ScalarMult lib (maabe_g2 a) om
                     else ScalarMult lib (grp_Neg lib (maabe_g2 a)) \<bar>om\<bar>)
     in
     bind_err (deref (EggToAlpha pk at)) (\<lambda>egg.
     bind_err (deref (r at)) (\<lambda>rat.
     bind_err (deref (GToY pk at)) (\<lambda>gy.
     Inr (grp_Add lib tmpLambda (ScalarMult lib egg rat),
          ScalarMult lib (maabe_g2 a) rat,
          grp_Add lib (ScalarMult lib gy rat) tmpOmega))))))"

text \<open>
  The inner loop \<open>for _, pk := range pks\<close>: the first public key that knows the
  attribute is used; without one the attribute is reported as not found.
\<close>

definition enc_one :: "'k lib \<Rightarrow> MAABE \<Rightarrow> MAABEPubKey list \<Rightarrow> (string \<rightharpoonup> int) \<Rightarrow> (string \<rightharpoonup> int)
    \<Rightarrow> (string \<rightharpoonup> int) \<Rightarrow> string \<Rightarrow> error + (int \<times> int \<times> int)" where
  "enc_one lib a pks lambda omega r at =
     (case find (\<lambda>pk. EggToAlpha pk at \<noteq> None) pks of
        None \<Rightarrow> Inl ErrAttribNotInPubKeys
      | Some pk \<Rightarrow> enc_attrib lib a pk lambda omega r at)"

fun enc_attribs :: "'k lib \<Rightarrow> MAABE \<Rightarrow> MAABEPubKey list \<Rightarrow> (string \<rightharpoonup> int) \<Rightarrow> (string \<rightharpoonup> int)
    \<Rightarrow> (string \<rightharpoonup> int) \<Rightarrow> string list
    \<Rightarrow> (string \<rightharpoonup> int) \<times> (string \<rightharpoonup> int) \<times> (string \<rightharpoonup> int)
    \<Rightarrow> error + ((string \<rightharpoonup> int) \<times> (string \<rightharpoonup> int) \<times> (string \<rightharpoonup> int))" where
  "enc_attribs lib a pks lambda omega r [] cs = Inr cs"
| "enc_attribs lib a pks lambda omega r (at # ats) (c1, c2, c3) =
     bind_err (enc_one lib a pks lambda omega r at) (\<lambda>(x1, x2, x3).
     enc_attribs lib a pks lambda omega r ats (c1(at \<mapsto> x1), c2(at \<mapsto> x2), c3(at \<mapsto> x3)))"

definition pkcs7_pad :: "bytes \<Rightarrow> bytes" where
  "pkcs7_pad msgByte =
     (let padLen = BlockSize - length msgByte mod BlockSize
      in msgByte @ replicate padLen (char_of padLen))"

text \<open>
  \<open>Encrypt\<close> in its three parts: the symmetric envelope (the session key \<open>symKey\<close>, a
  random element of \<open>GT\<close>, and the AES-CBC encryption of the padded message), the
  sharing of \<open>symKey\<close> along the policy, and the sanity checks in front of both.
\<close>

definition enc_envelope :: "'k lib \<Rightarrow> maabe_draws \<Rightarrow> string \<Rightarrow> error + (int \<times> bytes \<times> bytes)" where
  "enc_envelope lib rnd msg =
     (case draw_symKey rnd of None \<Rightarrow> Inl ErrRandomness | Some k \<Rightarrow>
      let symKey = ScalarBaseMult lib k;
          keyCBC = Sum256 lib symKey
      in
      case draw_iv rnd of None \<Rightarrow> Inl ErrRandomness | Some ivf \<Rightarrow>
      let iv = map ivf [0..<BlockSize];
          msgPad = pkcs7_pad msg
      in
      bind_err (CryptBlocks (CBCEncrypter lib keyCBC iv) msgPad) (\<lambda>symEnc.
      Inr (symKey, symEnc, iv)))"

definition enc_shares :: "'k lib \<Rightarrow> MAABE \<Rightarrow> maabe_draws \<Rightarrow> MSP \<Rightarrow> MAABEPubKey list \<Rightarrow> int
    \<Rightarrow> error + (int \<times> (string \<rightharpoonup> int) \<times> (string \<rightharpoonup> int) \<times> (string \<rightharpoonup> int))" where
  "enc_shares lib a rnd msp pks symKey =
     (let mspRows = Rows (Mat msp); mspCols = Cols (Mat msp) in
      bind_err (NewRandomVector (int mspCols) (draw_v rnd)) (\<lambda>v.
      let s = v ! 0 in
      bind_err (MulVec (Mat msp) v) (\<lambda>lambdaI.
      if length lambdaI \<noteq> mspRows then Inl ErrWrongLambdaLen
      else
        bind_err (index_map (RowToAttrib msp) lambdaI Map.empty) (\<lambda>lambda.
        bind_err (NewRandomVector (int mspCols) (draw_w rnd)) (\<lambda>w0.
        let w = w0[0 := 0] in
        bind_err (MulVec (Mat msp) w) (\<lambda>omegaI.
        if length omegaI \<noteq> mspRows then Inl ErrWrongOmegaLen
        else
          bind_err (index_map (RowToAttrib msp) omegaI Map.empty) (\<lambda>omega.
          let c0 = grp_Add lib symKey (ScalarMult lib (maabe_gt a) s);
              rI = NewRandomVector (int mspRows) (draw_rI rnd)
          in
          bind_err (index_map (RowToAttrib msp) (drop_err rI) Map.empty) (\<lambda>r.
          bind_err rI (\<lambda>_.
          bind_err (enc_attribs lib a pks lambda omega r (RowToAttrib msp)
                      (Map.empty, Map.empty, Map.empty)) (\<lambda>(c1, c2, c3).
          Inr (c0, c1, c2, c3)))))))))))"

definition MAABE_Encrypt :: "'k lib \<Rightarrow> MAABE \<Rightarrow> maabe_draws \<Rightarrow> string \<Rightarrow> MSP \<Rightarrow> MAABEPubKey list
    \<Rightarrow> error + MAABECipher" where
  "MAABE_Encrypt lib a rnd msg msp pks =
     (if length (Mat msp) = 0 \<or> Cols (Mat msp) = 0 then Inl ErrEmptyMsp
      else if \<not> attribs_fresh (RowToAttrib msp) (\<lambda>_. False) then Inl ErrDuplicateAttrib
      else if length msg = 0 then Inl ErrEmptyMessage
      else
        bind_err (enc_envelope lib rnd msg) (\<lambda>(symKey, symEnc, iv).
        bind_err (enc_shares lib a rnd msp pks symKey) (\<lambda>(c0, c1, c2, c3).
        Inr \<lparr>C0 = c0, C1x = c1, C2x = c2, C3x = c3, Msp = msp, SymEnc = symEnc, Iv = iv\<rparr>)))"

subsection \<open>Authorities\<close>

text \<open>
  The second loop of \<open>NewMAABEAuth\<close>: the public pair \<open>(gt^alpha, g2^y)\<close> of every
  attribute.
\<close>

fun pub_maps :: "'k lib \<Rightarrow> MAABE \<Rightarrow> (string \<rightharpoonup> int) \<Rightarrow> (string \<rightharpoonup> int) \<Rightarrow> string list
    \<Rightarrow> (string \<rightharpoonup> int) \<times> (string \<rightharpoonup> int) \<Rightarrow> error + ((string \<rightharpoonup> int) \<times> (string \<rightharpoonup> int))" where
  "pub_maps lib a alpha y [] ms = Inr ms"
| "pub_maps lib a alpha y (at # ats) (eggToAlpha, gToY) =
     bind_err (deref (alpha at)) (\<lambda>al.
     bind_err (deref (y at)) (\<lambda>yv.
     pub_maps lib a alpha y ats
       (eggToAlpha(at \<mapsto> ScalarMult lib (maabe_gt a) al),
        gToY(at \<mapsto> ScalarMult lib (maabe_g2 a) yv))))"

text \<open>
  \<open>NewMAABEAuth\<close>, with the two draws of the uniform sampler for the vectors \<open>alphaI\<close>
  and \<open>yI\<close>.
\<close>

definition NewMAABEAuth :: "'k lib \<Rightarrow> MAABE \<Rightarrow> (nat \<Rightarrow> int) option \<Rightarrow> (nat \<Rightarrow> int) option
    \<Rightarrow> string \<Rightarrow> string list \<Rightarrow> error + MAABEAuth" where
  "NewMAABEAuth lib a src_alpha src_y aid attribs =
     (let numattrib = length attribs in
      if numattrib = 0 then Inl ErrEmptyAuthAttribs
      else if length aid = 0 then Inl ErrEmptyId
      else
        bind_err (NewRandomVector (int numattrib) src_alpha) (\<lambda>alphaI.
        bind_err (NewRandomVector (int numattrib) src_y) (\<lambda>yI.
        bind_err (index_map attribs alphaI Map.empty) (\<lambda>alpha.
        bind_err (index_map attribs yI Map.empty) (\<lambda>y.
        bind_err (pub_maps lib a alpha y attribs (Map.empty, Map.empty)) (\<lambda>(eggToAlpha, gToY).
        Inr \<lparr>ID = aid, Maabe = Some a,
             Pk = \<lparr>pk_Attribs = attribs, EggToAlpha = eggToAlpha, GToY = gToY\<rparr>,
             Sk = \<lparr>sk_Attribs = attribs, Alpha = alpha, Y = y\<rparr>\<rparr>))))))"

subsection \<open>Attribute keys\<close>

definition attrib_key :: "'k lib \<Rightarrow> MAABEAuth \<Rightarrow> MAABE \<Rightarrow> string \<Rightarrow> int \<Rightarrow> string \<Rightarrow> error + MAABEKey" where
  "attrib_key lib auth a gid hash at =
     (case (Alpha (Sk auth) at, Y (Sk auth) at) of
        (Some al, Some y) \<Rightarrow>
          Inr \<lparr>Gid = gid, Attrib = at,
               Key = grp_Add lib (ScalarMult lib (maabe_g1 a) al) (ScalarMult lib hash y)\<rparr>
      | _ \<Rightarrow> Inl ErrAttribNotInSecKey)"

definition GenerateAttribKeys :: "'k lib \<Rightarrow> MAABEAuth \<Rightarrow> string \<Rightarrow> string list \<Rightarrow> error + MAABEKey list" where
  "GenerateAttribKeys lib auth gid attribs =
     (if length gid = 0 then Inl ErrEmptyGid
      else if length attribs = 0 then Inl ErrEmptyAttribs
      else case Maabe auth of None \<Rightarrow> Inl ErrNilScheme | Some a \<Rightarrow>
        (case HashG1 lib gid of None \<Rightarrow> Inl ErrHash | Some hash \<Rightarrow>
           traverse (attrib_key lib auth a gid hash) attribs))"

subsection \<open>Decrypt\<close>

text \<open>
  \<open>goodMatRows\<close> and \<open>goodAttribs\<close>: the rows of the policy matrix whose attribute has a
  key, with their attributes, in row order. \<open>Mat[i]\<close> is read only for such a row.
\<close>

fun good_rows :: "(string \<rightharpoonup> MAABEKey) \<Rightarrow> string list \<Rightarrow> Matrix \<Rightarrow> error + (Matrix \<times> string list)" where
  "good_rows aToK [] mat = Inr ([], [])"
| "good_rows aToK (at # ats) mat =
     (if aToK at \<noteq> None
      then (case mat of
              [] \<Rightarrow> Inl ErrPanic
            | row # rows \<Rightarrow>
                bind_err (good_rows aToK ats rows) (\<lambda>(gm, ga). Inr (row # gm, at # ga)))
      else good_rows aToK ats (drop 1 mat))"

text \<open>
  Modelled from the spec: \<open>data.NewMatrix\<close> is not among the sources; it builds a
  matrix from rows of one length and fails otherwise.
\<close>

definition NewMatrix :: "Vector list \<Rightarrow> error + Matrix" where
  "NewMatrix vs =
     (if list_all (\<lambda>v. length v = Cols vs) vs then Inr vs else Inl ErrDimMismatch)"

definition egg_lambda :: "'k lib \<Rightarrow> MAABECipher \<Rightarrow> (string \<rightharpoonup> MAABEKey) \<Rightarrow> int \<Rightarrow> string \<Rightarrow> error + int" where
  "egg_lambda lib ct aToK hash at =
     (case (C1x ct at, C2x ct at, C3x ct at) of
        (Some c1, Some c2, Some c3) \<Rightarrow>
          bind_err (deref (aToK at)) (\<lambda>k.
          let num = grp_Add lib c1 (Pair lib hash c3);
              den = grp_Neg lib (Pair lib (Key k) c2)
          in Inr (grp_Add lib num den))
      | _ \<Rightarrow> Inl ErrAttribNotInCipher)"

fun egg_lambdas :: "'k lib \<Rightarrow> MAABECipher \<Rightarrow> (string \<rightharpoonup> MAABEKey) \<Rightarrow> int \<Rightarrow> string list
    \<Rightarrow> (string \<rightharpoonup> int) \<Rightarrow> error + (string \<rightharpoonup> int)" where
  "egg_lambdas lib ct aToK hash [] m = Inr m"
| "egg_lambdas lib ct aToK hash (at # ats) m =
     bind_err (egg_lambda lib ct aToK hash at) (\<lambda>e. egg_lambdas lib ct aToK hash ats (m(at \<mapsto> e)))"

fun sum_eggs :: "'k lib \<Rightarrow> (string \<rightharpoonup> int) \<Rightarrow> (string \<rightharpoonup> int) \<Rightarrow> string list \<Rightarrow> int \<Rightarrow> error + int" where
  "sum_eggs lib eggLambda cx [] eggs = Inr eggs"
| "sum_eggs lib eggLambda cx (at # ats) eggs =
     (case eggLambda at of
        None \<Rightarrow> Inl ErrMissingIntermediate
      | Some e \<Rightarrow>
          bind_err (deref (cx at)) (\<lambda>c.
          if 0 < c then sum_eggs lib eggLambda cx ats (grp_Add lib eggs (ScalarMult lib e c))
          else if c < 0
            then sum_eggs lib eggLambda cx ats
                   (grp_Add lib eggs (ScalarMult lib (grp_Neg lib e) \<bar>c\<bar>))
          else sum_eggs lib eggLambda cx ats eggs))"

text \<open>
  The end of \<open>Decrypt\<close>: the last byte of the decrypted data is the pad length; reading
  it from empty data panics.
\<close>

definition unpad :: "bytes \<Rightarrow> error + string" where
  "unpad msgPad =
     (if length msgPad = 0 then Inl ErrPanic
      else
        let padLen = (of_char (msgPad ! (length msgPad - 1)) :: int) in
        if int (length msgPad) - padLen < 0 then Inl ErrFailedToDecrypt
        else Inr (take (nat (int (length msgPad) - padLen)) msgPad))"

definition MAABE_Decrypt :: "'k lib \<Rightarrow> MAABE \<Rightarrow> MAABECipher \<Rightarrow> MAABEKey list \<Rightarrow> error + string" where
  "MAABE_Decrypt lib a ct ks =
     (if length ks = 0 then Inl ErrEmptyKeys
      else
        let gid = Gid (ks ! 0) in
        if list_ex (\<lambda>k. Gid k \<noteq> gid) ks then Inl ErrGidMismatch
        else
          case HashG1 lib gid of None \<Rightarrow> Inl ErrHash | Some hash \<Rightarrow>
          let aToK = fold (\<lambda>k m. m(Attrib k \<mapsto> k)) ks Map.empty in
          bind_err (good_rows aToK (RowToAttrib (Msp ct)) (Mat (Msp ct))) (\<lambda>(goodMatRows, goodAttribs).
          bind_err (NewMatrix goodMatRows) (\<lambda>goodMat.
          let goodCols = Cols goodMat in
          if goodCols = 0 then Inl ErrPanic
          else
            let one = (replicate goodCols 0)[0 := 1] in
            case GaussianEliminationSolver lib (Transpose goodMat) one (maabe_P a) of
              None \<Rightarrow> Inl ErrNoSolution
            | Some c \<Rightarrow>
                bind_err (index_map goodAttribs c Map.empty) (\<lambda>cx.
                bind_err (egg_lambdas lib ct aToK hash goodAttribs Map.empty) (\<lambda>eggLambda.
                bind_err (sum_eggs lib eggLambda cx goodAttribs (ScalarBaseMult lib 0)) (\<lambda>eggs.
                let symKey = grp_Add lib (C0 ct) (grp_Neg lib eggs);
                    keyCBC = Sum256 lib symKey
                in
                if length (Iv ct) \<noteq> BlockSize then Inl ErrPanic
                else
                  bind_err (CryptBlocks (CBCDecrypter lib keyCBC (Iv ct)) (SymEnc ct)) (\<lambda>msgPad.
                  unpad msgPad)))))))"

text \<open>
  The contract of the solver (section 4.2): \<open>x\<close> solves \<open>A x = b (mod p)\<close>; the solver
  returns only solutions and finds one when there is one.
\<close>

definition solves :: "Matrix \<Rightarrow> Vector \<Rightarrow> int \<Rightarrow> Vector \<Rightarrow> bool" where
  "solves A b p x \<longleftrightarrow>
     length x = Cols A \<and> map (\<lambda>row. Dot row x mod p) A = map (\<lambda>c. c mod p) b"

subsection \<open>Notions of the round-trip property\<close>

text \<open>
  The rows of \<open>M\<close> with index in \<open>S\<close>, in row order; the target vector \<open>(1, 0, ..., 0)\<close>
  of length \<open>d\<close>; the rows indexed by \<open>S\<close> span the target over the integers modulo \<open>p\<close>.
\<close>

definition sub_rows :: "Matrix \<Rightarrow> nat set \<Rightarrow> Matrix" where
  "sub_rows M S = map (\<lambda>i. M ! i) (filter (\<lambda>i. i \<in> S) [0..<length M])"

definition unit_vec :: "nat \<Rightarrow> Vector" where
  "unit_vec d = (replicate d 0)[0 := 1]"

definition spans_unit :: "Matrix \<Rightarrow> nat set \<Rightarrow> nat \<Rightarrow> int \<Rightarrow> bool" where
  "spans_unit M S d p \<longleftrightarrow>
     (\<exists>c :: nat \<Rightarrow> int. \<forall>j<d. (\<Sum>i\<in>S. c i * M ! i ! j) mod p = unit_vec d ! j mod p)"

text \<open>The solver meets its contract on the system \<open>A x = b (mod p)\<close>.\<close>

definition solver_ok :: "'k lib \<Rightarrow> Matrix \<Rightarrow> Vector \<Rightarrow> int \<Rightarrow> bool" where
  "solver_ok lib A b p \<longleftrightarrow>
     (\<forall>x. GaussianEliminationSolver lib A b p = Some x \<longrightarrow> solves A b p x)
     \<and> ((\<exists>x. solves A b p x) \<longrightarrow> GaussianEliminationSolver lib A b p \<noteq> None)"

text \<open>
  CBC decryption inverts CBC encryption under the same key and initialisation vector,
  on whole blocks, and encryption keeps the length.
\<close>

definition cbc_ok :: "'k lib \<Rightarrow> bool" where
  "cbc_ok lib \<longleftrightarrow>
     (\<forall>key iv src. length src mod BlockSize = 0 \<longrightarrow>
        length (CBCEncrypter lib key iv src) = length src
        \<and> CBCDecrypter lib key iv (CBCEncrypter lib key iv src) = src)"

text \<open>
  What \<open>NewMAABEAuth\<close>, \<open>AddAttribute\<close> and \<open>RegenerateKey\<close> maintain for an authority of
  the scheme \<open>a\<close>: an attribute has both secrets or none, the secrets are samples of
  the uniform sampler, hence not negative, and the public key of an attribute is
  \<open>(gt^alpha, g2^y)\<close>.
\<close>

definition auth_inv :: "'k lib \<Rightarrow> MAABE \<Rightarrow> MAABEAuth \<Rightarrow> bool" where
  "auth_inv lib a auth \<longleftrightarrow>
     Maabe auth = Some a
     \<and> (\<forall>at. EggToAlpha (Pk auth) at = map_option (ScalarMult lib (maabe_gt a)) (Alpha (Sk auth) at))
     \<and> (\<forall>at. GToY (Pk auth) at = map_option (ScalarMult lib (maabe_g2 a)) (Y (Sk auth) at))
     \<and> (\<forall>at. Alpha (Sk auth) at \<noteq> None \<longleftrightarrow> Y (Sk auth) at \<noteq> None)
     \<and> (\<forall>at al. Alpha (Sk auth) at = Some al \<longrightarrow> 0 \<le> al)
     \<and> (\<forall>at y. Y (Sk auth) at = Some y \<longrightarrow> 0 \<le> y)"

text \<open>No attribute is held by two authorities of the list.\<close>

definition auths_disjoint :: "MAABEAuth list \<Rightarrow> bool" where
  "auths_disjoint auths \<longleftrightarrow>
     (\<forall>au\<in>set auths. \<forall>au'\<in>set auths. \<forall>at.
        Alpha (Sk au) at \<noteq> None \<and> Alpha (Sk au') at \<noteq> None \<longrightarrow> au = au')"

subsection \<open>A small instance\<close>

text \<open>
  An instance of the library interface over the group of order 7, with a constant hash,
  the identity for the key derivation and the block cipher, and a solver that knows the
  one system of the example policy \<open>a AND b\<close> below. It serves to evaluate the
  definitions on concrete inputs.
\<close>

definition lib7 :: "int lib" where
  "lib7 =
     \<lparr>Order = 7,
      NegScalarMult = (\<lambda>x k. 0),
      HashG1 = (\<lambda>gid. Some 4),
      Sum256 = (\<lambda>x. x),
      CBCEncrypter = (\<lambda>key iv src. src),
      CBCDecrypter = (\<lambda>key iv src. src),
      GaussianEliminationSolver =
        (\<lambda>A b p. if A = [[1, 0], [1, - 1]] \<and> b = [1, 0] then Some [1, 1] else None)\<rparr>"

definition auth1 :: MAABEAuth where
  "auth1 =
     \<lparr>ID = ''auth1'', Maabe = Some (NewMAABE lib7),
      Pk = \<lparr>pk_Attribs = [''a''], EggToAlpha = [''a'' \<mapsto> 2], GToY = [''a'' \<mapsto> 3]\<rparr>,
      Sk = \<lparr>sk_Attribs = [''a''], Alpha = [''a'' \<mapsto> 2], Y = [''a'' \<mapsto> 3]\<rparr>\<rparr>"

definition auth2 :: MAABEAuth where
  "auth2 =
     \<lparr>ID = ''auth2'', Maabe = Some (NewMAABE lib7),
      Pk = \<lparr>pk_Attribs = [''b''], EggToAlpha = [''b'' \<mapsto> 5], GToY = [''b'' \<mapsto> 1]\<rparr>,
      Sk = \<lparr>sk_Attribs = [''b''], Alpha = [''b'' \<mapsto> 5], Y = [''b'' \<mapsto> 1]\<rparr>\<rparr>"

text \<open>The policy \<open>a AND b\<close>: the two rows add up to \<open>(1, 0)\<close>.\<close>

definition msp_ab :: MSP where
  "msp_ab = \<lparr>Mat = [[1, 1], [0, - 1]], RowToAttrib = [''a'', ''b'']\<rparr>"

definition draws1 :: maabe_draws where
  "draws1 =
     \<lparr>draw_symKey = Some 3, draw_iv = Some (\<lambda>i. CHR ''i''), draw_v = Some (\<lambda>i. int i + 2),
      draw_w = Some (\<lambda>i. 4), draw_rI = Some (\<lambda>i. int i + 1)\<rparr>"

text \<open>The keys the two authorities issue to \<open>alice\<close> for \<open>a\<close> and \<open>b\<close>.\<close>

definition keys_alice :: "MAABEKey list" where
  "keys_alice =
     [\<lparr>Gid = ''alice'', Attrib = ''a'', Key = 0\<rparr>, \<lparr>Gid = ''alice'', Attrib = ''b'', Key = 2\<rparr>]"

section \<open>Auxiliary facts\<close>

lemma bind_err_Inr [simp]: "bind_err (Inr x) f = f x"
  by (simp add: bind_err_def)

lemma bind_err_Inl [simp]: "bind_err (Inl e) f = Inl e"
  by (simp add: bind_err_def)

lemma drop_err_Inr [simp]: "drop_err (Inr v) = v"
  by (simp add: drop_err_def)

lemma drop_err_Inl [simp]: "drop_err (Inl e) = []"
  by (simp add: drop_err_def)

lemma traverse_total:
  "(\<And>x. x \<in> set xs \<Longrightarrow> f x = Inr (g x)) \<Longrightarrow> traverse f xs = Inr (map g xs)"
  by (induction xs) simp_all

lemma traverse_upt:
  "(\<And>i. i < n \<Longrightarrow> f i = Inr (g i)) \<Longrightarrow> traverse f [0..<n] = Inr (map g [0..<n])"
  by (rule traverse_total) simp

lemma traverse_map: "traverse f (map h xs) = traverse (\<lambda>x. f (h x)) xs"
  by (induction xs) simp_all

lemma map2_upt: "map2 f (map g [0..<n]) (map h [0..<n]) = map (\<lambda>k. f (g k) (h k)) [0..<n]"
  by (rule nth_equalityI) simp_all

lemma zip_map_upt: "zip (map f [0..<n]) (map g [0..<n]) = map (\<lambda>i. (f i, g i)) [0..<n]"
  by (rule nth_equalityI) simp_all

lemma vec_Mod_pos: "0 < q \<Longrightarrow> vec_Mod v q = Inr (map (\<lambda>c. c mod q) v)"
  unfolding vec_Mod_def by (rule traverse_total) (simp add: big_Mod_def)

lemma mat_Mod_pos: "0 < q \<Longrightarrow> mat_Mod m q = Inr (map (map (\<lambda>c. c mod q)) m)"
  unfolding mat_Mod_def by (rule traverse_total) (simp add: vec_Mod_pos)

lemma Cols_rect: "rect m r c \<Longrightarrow> 0 < r \<Longrightarrow> Cols m = c"
  by (cases m) (auto simp: rect_def Cols_def)

lemma rect_take: "rect m r c \<Longrightarrow> k \<le> r \<Longrightarrow> rect (take k m) k c"
  by (auto simp: rect_def list_all_iff dest: in_set_takeD)

lemma rect_expand:
  assumes "rect m r c"
  shows "m = map (\<lambda>i. map (\<lambda>k. m ! i ! k) [0..<c]) [0..<r]"
proof (rule nth_equalityI)
  show "length m = length (map (\<lambda>i. map (\<lambda>k. m ! i ! k) [0..<c]) [0..<r])"
    using assms by (simp add: rect_def)
next
  fix i assume i: "i < length m"
  then have "length (m ! i) = c" using assms by (simp add: rect_def list_all_length)
  then have "map (\<lambda>k. m ! i ! k) [0..<c] = m ! i" using map_nth[of "m ! i"] by simp
  then show "m ! i = map (\<lambda>i. map (\<lambda>k. m ! i ! k) [0..<c]) [0..<r] ! i"
    using i assms by (simp add: rect_def)
qed

lemma Cols_map_upt: "0 < r \<Longrightarrow> Cols (map (\<lambda>i. map (f i) [0..<c]) [0..<r]) = c"
  by (simp add: Cols_def upt_conv_Cons)

lemma vec_CheckBound_ok: "\<forall>c\<in>set v. \<bar>c\<bar> \<le> b \<Longrightarrow> vec_CheckBound v b = Inr ()"
  by (simp add: vec_CheckBound_def list_all_iff)

lemma mat_CheckBound_ok:
  "\<forall>v\<in>set m. \<forall>c\<in>set v. \<bar>c\<bar> \<le> b \<Longrightarrow> mat_CheckBound m b = Inr ()"
  by (simp add: mat_CheckBound_def list_all_iff)

section \<open>Ring-LWE: decryption\<close>

lemma dec_round_pos:
  "0 < Params_Q s \<Longrightarrow> dec_round s (Params_Q s div 2) x = Inr (dec_out s x)"
  by (simp add: dec_round_def dec_out_def big_Div_def Let_def)

lemma Transpose_MulVec:
  assumes "rect m r c" "0 < r" "length y = r"
  shows "drop_err (MulVec (Transpose m) y) = map (\<lambda>k. Dot (map (\<lambda>row. row ! k) m) y) [0..<c]"
proof (cases "c = 0")
  case True
  with assms have "Transpose m = []" by (simp add: Transpose_def Cols_rect)
  with assms True show ?thesis by (simp add: MulVec_def Cols_def)
next
  case False
  from assms have C: "Cols m = c" by (simp add: Cols_rect)
  have "Cols (Transpose m) = r"
    using assms False C by (simp add: Transpose_def Cols_def rect_def upt_conv_Cons)
  then show ?thesis using assms C by (simp add: MulVec_def Transpose_def comp_def)
qed

text \<open>
  Claim C4. For a ciphertext of dimensions \<open>(L+1) \<times> N\<close>, a derived key of length \<open>N\<close>
  and a query of length \<open>L\<close> within the bound \<open>B\<^sub>y\<close>, \<open>RingLWE.Decrypt\<close> returns the
  vector of the specification: \<open>d = (C0\<^sup>T y - c1 * sk\<^sub>y) mod Q\<close>, lifted to the centred
  residue when \<open>d > floor(Q/2)\<close>, then \<open>floor((d * P + floor(Q/2)) / Q)\<close>. The parameters
  satisfy the data model: \<open>Q > 0\<close> and \<open>L \<ge> 1\<close>.
\<close>

theorem RingLWE_Decrypt_computes_spec:
  assumes Q: "0 < Params_Q s"
    and L: "1 \<le> Params_L s"
    and CT: "rect CT (nat (Params_L s + 1)) (nat (Params_N s))"
    and sk: "int (length skY) = Params_N s"
    and y: "int (length y) = Params_L s"
    and yb: "\<forall>c\<in>set y. \<bar>c\<bar> \<le> Params_BoundY s"
  shows "RingLWE_Decrypt s CT skY y = Inr (Decrypt_spec s CT skY y)"
proof -
  let ?L = "nat (Params_L s)" and ?N = "nat (Params_N s)"
  let ?CT0 = "take ?L CT" and ?ct1 = "CT ! ?L"
  have N: "0 \<le> Params_N s" using sk by linarith
  have lenCT: "length CT = ?L + 1" using CT L by (simp add: rect_def nat_add_distrib)
  have dims: "CheckDims CT (Params_L s + 1) (Params_N s)"
    using CT L N Cols_rect[OF CT] by (simp add: CheckDims_def Rows_def rect_def)
  have r0: "rect ?CT0 ?L ?N" using rect_take[OF CT, of ?L] L by simp
  have "?ct1 \<in> set CT" using lenCT by simp
  then have len1: "length ?ct1 = ?N" using CT by (simp add: rect_def list_all_iff)
  have a: "drop_err (MulVec (Transpose ?CT0) y)
             = map (\<lambda>k. Dot (map (\<lambda>row. row ! k) ?CT0) y) [0..<?N]"
    using Transpose_MulVec[OF r0] L y by simp
  have b: "drop_err (MulAsPolyInRing ?ct1 skY) = map (ring_coeff ?N ?ct1 skY) [0..<?N]"
    using len1 sk by (simp add: MulAsPolyInRing_def)
  have hq: "big_Div (Params_Q s) 2 = Inr (Params_Q s div 2)" by (simp add: big_Div_def)
  show ?thesis
    unfolding RingLWE_Decrypt_def
    using sk y dims
    by (simp add: vec_CheckBound_ok[OF yb] Let_def a b vec_Mod_pos[OF Q] vec_Add_def hq map2_upt
        traverse_total[where g = "dec_out s", OF dec_round_pos[OF Q]] Decrypt_spec_def dec_d_def
        mod_simps comp_def)
qed

theorem RingLWE_Decrypt_computes_spec_witness:
  "RingLWE_Decrypt
     \<lparr>Params_L = 1, Params_N = 2, Params_Sigma1 = (), Params_Sigma2 = (), Params_Sigma3 = (),
      Params_BoundX = 3, Params_BoundY = 3, Params_P = 4, Params_Q = 17, Params_A = [2, 5]\<rparr>
     [[3, 5], [7, 11]] [1, 2] [2] = Inr [1, 0]"
proof -
  let ?s = "\<lparr>Params_L = 1, Params_N = 2, Params_Sigma1 = (), Params_Sigma2 = (),
      Params_Sigma3 = (), Params_BoundX = 3, Params_BoundY = 3, Params_P = 4, Params_Q = 17,
      Params_A = [2, 5]\<rparr> :: unit RingLWEParams"
  have r: "rect [[3, 5], [7, 11]] (nat (Params_L ?s + 1)) (nat (Params_N ?s))"
    by (simp add: rect_def)
  have e: "Decrypt_spec ?s [[3, 5], [7, 11]] [1, 2] [2] = [1, 0]"
    by code_simp
  show ?thesis
    using RingLWE_Decrypt_computes_spec[of ?s "[[3, 5], [7, 11]]" "[1, 2]" "[2]"] r e by simp
qed

section \<open>Ring-LWE: encryption\<close>

lemma center_elem_pos:
  "0 < Params_Q s \<Longrightarrow> 0 < Params_P s \<Longrightarrow> center_elem s x = Inr (center_val s x)"
  by (simp add: center_elem_def center_val_def big_Div_def big_Mod_def)

lemma center_pos:
  assumes "0 < Params_Q s" "0 < Params_P s"
  shows "center s X = Inr (map (map (center_val s)) X)"
  unfolding center_def
  by (rule traverse_total, rule traverse_total) (rule center_elem_pos[OF assms])

lemma Encrypt_spec_shape:
  assumes "0 < Params_Q s" "0 \<le> Params_L s"
  shows "rect (Encrypt_spec s r E e X PK) (nat (Params_L s + 1)) (nat (Params_N s))"
    and "\<forall>row\<in>set (Encrypt_spec s r E e X PK). \<forall>c\<in>set row. 0 \<le> c \<and> c < Params_Q s"
  using assms
  by (auto simp: Encrypt_spec_def enc_top_def enc_last_def nat_add_distrib rect_def list_all_iff)

text \<open>
  Claim C5. For a plaintext matrix \<open>X\<close> of dimensions \<open>L \<times> N\<close> within the bound \<open>B\<^sub>x\<close>
  and a public key of dimensions \<open>L \<times> N\<close>, \<open>RingLWE.Encrypt\<close> returns an \<open>(L+1) \<times> N\<close>
  matrix with entries in \<open>[0, Q)\<close>: row \<open>i < L\<close> is \<open>(PK\<^sub>i * r + E\<^sub>i + T\<^sub>i) mod Q\<close> with
  \<open>T = center(X)\<close>, \<open>center(x) = floor(x * Q / P) mod Q\<close>, and the last row is
  \<open>(A * r + e) mod Q\<close>, for the draws \<open>r\<close>, \<open>E\<close>, \<open>e\<close> of the call. The parameters satisfy
  the data model: \<open>Q > 0\<close>, \<open>P > 0\<close>, \<open>L \<ge> 1\<close> and \<open>A\<close> has length \<open>N\<close>.
\<close>

theorem RingLWE_Encrypt_computes_spec:
  assumes Q: "0 < Params_Q s" and P: "0 < Params_P s"
    and L: "1 \<le> Params_L s" and N: "0 \<le> Params_N s"
    and X: "rect X (nat (Params_L s)) (nat (Params_N s))"
    and Xb: "\<forall>v\<in>set X. \<forall>c\<in>set v. \<bar>c\<bar> \<le> Params_BoundX s"
    and PK: "rect PK (nat (Params_L s)) (nat (Params_N s))"
    and A: "int (length (Params_A s)) = Params_N s"
    and dr: "draw_r rnd = Some r" and dE: "draw_E rnd = Some E" and de: "draw_e rnd = Some e"
  shows "RingLWE_Encrypt s rnd X PK = Inr (Encrypt_spec s r E e X PK)
         \<and> rect (Encrypt_spec s r E e X PK) (nat (Params_L s + 1)) (nat (Params_N s))
         \<and> (\<forall>row\<in>set (Encrypt_spec s r E e X PK). \<forall>c\<in>set row. 0 \<le> c \<and> c < Params_Q s)"
proof -
  let ?L = "nat (Params_L s)" and ?N = "nat (Params_N s)" and ?Q = "Params_Q s"
  let ?r = "map r [0..<?N]"
  have Lpos: "0 < ?L" using L by simp
  have dPK: "CheckDims PK (Params_L s) (Params_N s)"
    using PK L N Cols_rect[OF PK Lpos] by (simp add: CheckDims_def Rows_def rect_def)
  have dX: "CheckDims X (Params_L s) (Params_N s)"
    using X L N Cols_rect[OF X Lpos] by (simp add: CheckDims_def Rows_def rect_def)
  have s1: "NewRandomVector (Params_N s) (draw_r rnd) = Inr ?r"
    using N dr by (simp add: NewRandomVector_def)
  let ?E = "map (\<lambda>i. map (E i) [0..<?N]) [0..<?L]"
  have s2: "NewRandomMatrix (Params_L s) (Params_N s) (draw_E rnd) = Inr ?E"
    using N L dE by (simp add: NewRandomMatrix_def)
  let ?c0 = "\<lambda>i k. ring_coeff ?N (PK ! i) ?r k + E i k"
  have row: "enc_row PK ?r ?E i = Inr (map (?c0 i) [0..<?N])" if "i < ?L" for i
  proof -
    have "PK ! i \<in> set PK" using that PK by (simp add: rect_def)
    then have "length (PK ! i) = ?N" using PK by (simp add: rect_def list_all_iff)
    then show ?thesis using that
      by (simp add: enc_row_def MulAsPolyInRing_def vec_Add_def map2_upt)
  qed
  have s3: "traverse (enc_row PK ?r ?E) [0..<?L] = Inr (map (\<lambda>i. map (?c0 i) [0..<?N]) [0..<?L])"
    by (rule traverse_upt) (rule row)
  let ?m0 = "map (\<lambda>i. map (\<lambda>k. ?c0 i k mod ?Q) [0..<?N]) [0..<?L]"
  have s4: "mat_Mod (map (\<lambda>i. map (?c0 i) [0..<?N]) [0..<?L]) ?Q = Inr ?m0"
    by (simp add: mat_Mod_pos[OF Q] comp_def)
  let ?T = "map (\<lambda>i. map (\<lambda>k. center_val s (X ! i ! k)) [0..<?N]) [0..<?L]"
  have "map (map (center_val s)) X
          = map (map (center_val s)) (map (\<lambda>i. map (\<lambda>k. X ! i ! k) [0..<?N]) [0..<?L])"
    using rect_expand[OF X] by simp
  then have s5: "center s X = Inr ?T"
    by (simp add: center_pos[OF Q P] comp_def)
  let ?m1 = "map (\<lambda>i. map (\<lambda>k. ?c0 i k mod ?Q + center_val s (X ! i ! k)) [0..<?N]) [0..<?L]"
  have s6: "mat_Add ?m0 ?T = Inr ?m1"
    unfolding mat_Add_def
    by (simp add: Rows_def Cols_map_upt[OF Lpos] zip_map_upt traverse_map vec_Add_def map2_upt
        traverse_upt[where g = "\<lambda>i. map (\<lambda>k. ?c0 i k mod ?Q + center_val s (X ! i ! k)) [0..<?N]"])
  have s7: "mat_Mod ?m1 ?Q = Inr (map (\<lambda>i. map (enc_top s r E X PK i) [0..<?N]) [0..<?L])"
    by (simp add: mat_Mod_pos[OF Q] comp_def enc_top_def mod_simps)
  have s8: "NewRandomVector (Params_N s) (draw_e rnd) = Inr (map e [0..<?N])"
    using N de by (simp add: NewRandomVector_def)
  have s9: "vec_Add (drop_err (MulAsPolyInRing (Params_A s) ?r)) (map e [0..<?N])
              = Inr (map (\<lambda>k. ring_coeff ?N (Params_A s) ?r k + e k) [0..<?N])"
    using A by (simp add: MulAsPolyInRing_def vec_Add_def map2_upt)
  have s10: "vec_Mod (map (\<lambda>k. ring_coeff ?N (Params_A s) ?r k + e k) [0..<?N]) ?Q
               = Inr (map (enc_last s r e) [0..<?N])"
    by (simp add: vec_Mod_pos[OF Q] comp_def enc_last_def)
  have run: "RingLWE_Encrypt s rnd X PK = Inr (Encrypt_spec s r E e X PK)"
    unfolding RingLWE_Encrypt_def Encrypt_spec_def
    by (simp only: mat_CheckBound_ok[OF Xb] dPK dX s1 s2 s3 s4 s5 s6 s7 s8 s9 s10
        bind_err_Inr drop_err_Inr not_True_eq_False if_False)
  from L have "0 \<le> Params_L s" by simp
  from run Encrypt_spec_shape[OF Q this] show ?thesis by blast
qed

theorem RingLWE_Encrypt_computes_spec_witness:
  "RingLWE_Encrypt
     \<lparr>Params_L = 1, Params_N = 2, Params_Sigma1 = (), Params_Sigma2 = (), Params_Sigma3 = (),
      Params_BoundX = 3, Params_BoundY = 3, Params_P = 4, Params_Q = 17, Params_A = [2, 5]\<rparr>
     \<lparr>draw_r = Some (\<lambda>i. int i + 1), draw_E = Some (\<lambda>i k. int k - 1), draw_e = Some (\<lambda>i. 2)\<rparr>
     [[1, - 3]] [[4, 9]] = Inr [[6, 4], [11, 11]]"
proof -
  let ?s = "\<lparr>Params_L = 1, Params_N = 2, Params_Sigma1 = (), Params_Sigma2 = (),
      Params_Sigma3 = (), Params_BoundX = 3, Params_BoundY = 3, Params_P = 4, Params_Q = 17,
      Params_A = [2, 5]\<rparr> :: unit RingLWEParams"
  let ?rnd = "\<lparr>draw_r = Some (\<lambda>i. int i + 1), draw_E = Some (\<lambda>i k. int k - 1),
      draw_e = Some (\<lambda>i. 2)\<rparr>"
  have rX: "rect [[1, - 3]] (nat (Params_L ?s)) (nat (Params_N ?s))"
    and rPK: "rect [[4, 9]] (nat (Params_L ?s)) (nat (Params_N ?s))"
    by (simp_all add: rect_def)
  have e: "Encrypt_spec ?s (\<lambda>i. int i + 1) (\<lambda>i k. int k - 1) (\<lambda>i. 2) [[1, - 3]] [[4, 9]]
             = [[6, 4], [11, 11]]"
    by code_simp
  show ?thesis
    using RingLWE_Encrypt_computes_spec[of ?s "[[1, - 3]]" "[[4, 9]]" ?rnd
        "\<lambda>i. int i + 1" "\<lambda>i k. int k - 1" "\<lambda>i. 2"] rX rPK e
    by simp
qed

section \<open>Ring-LWE: parameter search\<close>

lemma search_exhausted:
  assumes "\<forall>pow\<in>set pows. \<exists>it. body pow = Inr it \<and> \<not> it_safe it" and "pows \<noteq> []"
  shows "search body pows st = map_sum id Some (body (last pows))"
  using assms
proof (induction pows arbitrary: st)
  case Nil
  then show ?case by simp
next
  case (Cons pow pows)
  from Cons.prems obtain it where it: "body pow = Inr it" "\<not> it_safe it" by auto
  show ?case
  proof (cases "pows = []")
    case True
    with it show ?thesis by simp
  next
    case False
    with Cons it show ?thesis by simp
  qed
qed

text \<open>
  Claim C1 says that \<open>NewRingLWE\<close> returns a parameter-search failure when no
  \<open>N\<close> in \<open>2^6, ..., 2^19\<close> passes the lattice-cost check. The code does not: when the
  check fails in every iteration (and no floating-point operation panics and the random
  vector \<open>A\<close> is drawn), the loop ends after \<open>pow = 19\<close> and \<open>NewRingLWE\<close> returns a scheme
  with \<open>N = 2^19\<close> and the modulus of that last, unsafe iteration.
\<close>

theorem NewRingLWE_exhausted_search_returns_scheme:
  fixes ops :: "('d, 'f) float_ops"
  assumes kappa: "NewFloat ops (Float64_of_int ops (sint sec)) = Inr kappa"
    and kappaSqrt: "Float_Sqrt ops kappa = Inr kappaSqrt"
    and sigma: "NewFloat ops (Float64_of_int ops 1) = Inr sigma"
    and f0: "NewFloat ops (math_Sqrt ops (Float64_of_int ops (sint (4 * l)))) = Inr f0"
    and unsafe: "\<forall>pow\<in>{6..<20}. \<exists>it.
        search_body ops sec l boundY (boundX * boundY * sint (2 * l)) kappa kappaSqrt sigma
          (big_Float_Mul ops (big_Float_Mul ops f0 sigma) (big_SetInt ops boundX)) pow = Inr it
        \<and> \<not> it_safe it"
    and src: "src = Some f"
  shows "\<exists>ps it. NewRingLWE ops src sec l boundX boundY = Inr ps
           \<and> Params_N ps = 2 ^ 19
           \<and> search_body ops sec l boundY (boundX * boundY * sint (2 * l)) kappa kappaSqrt sigma
               (big_Float_Mul ops (big_Float_Mul ops f0 sigma) (big_SetInt ops boundX)) 19 = Inr it
           \<and> \<not> it_safe it \<and> Params_Q ps = it_q it"
proof -
  let ?body = "search_body ops sec l boundY (boundX * boundY * sint (2 * l)) kappa kappaSqrt sigma
          (big_Float_Mul ops (big_Float_Mul ops f0 sigma) (big_SetInt ops boundX))"
  have l: "last [6..<20] = (19::nat)" by (simp add: upt_conv_Cons)
  from unsafe obtain it where it: "?body 19 = Inr it" "\<not> it_safe it" by force
  have "search ?body [6..<20] None = map_sum id Some (?body (last [6..<20]))"
    by (rule search_exhausted) (use unsafe in auto)
  then have s: "search ?body [6..<20] None = Inr (Some it)"
    using it l by simp
  have n: "it_n it = push_bit 19 1"
    using it by (auto simp: search_body_def Let_def bind_err_def split: sum.splits)
  have sn: "sint (push_bit 19 (1 :: 64 word)) = 2 ^ 19"
    by simp
  have "\<exists>ps. NewRingLWE ops src sec l boundX boundY = Inr ps
           \<and> Params_N ps = 2 ^ 19 \<and> Params_Q ps = it_q it"
    unfolding NewRingLWE_def Let_def kappa kappaSqrt sigma f0 bind_err_Inr s
    by (simp add: n sn src NewRandomVector_def)
  with it show ?thesis by blast
qed

theorem NewRingLWE_exhausted_search_returns_scheme_witness:
  "\<exists>ps. NewRingLWE
     \<lparr>Float64_of_int = id, math_Sqrt = id, big_NewFloat = Some, big_SetInt = id,
      big_Float_Mul = (*), big_Float_Add = (+), big_Float_Sqrt = Some, big_Float_Int = id,
      big_Float_Float64 = id, attack_found = (\<lambda>_ _ _ _. True)\<rparr>
     (Some (\<lambda>i. 0)) 128 1 1 1 = Inr ps \<and> Params_N ps = 2 ^ 19"
proof -
  let ?ops = "\<lparr>Float64_of_int = id, math_Sqrt = id, big_NewFloat = Some, big_SetInt = id,
      big_Float_Mul = (*), big_Float_Add = (+), big_Float_Sqrt = Some, big_Float_Int = id,
      big_Float_Float64 = id, attack_found = (\<lambda>_ _ _ _. True)\<rparr> :: (int, int) float_ops"
  have "\<exists>it.
        search_body ?ops 128 1 1 (1 * 1 * sint (2 * (1 :: 64 word))) 128 128 1
          (big_Float_Mul ?ops (big_Float_Mul ?ops 4 1) (big_SetInt ?ops 1)) pow = Inr it
        \<and> \<not> it_safe it" for pow
    unfolding search_body_def by (simp add: NewFloat_def Let_def)
  then have u: "\<forall>pow\<in>{6..<20}. \<exists>it.
        search_body ?ops 128 1 1 (1 * 1 * sint (2 * (1 :: 64 word))) 128 128 1
          (big_Float_Mul ?ops (big_Float_Mul ?ops 4 1) (big_SetInt ?ops 1)) pow = Inr it
        \<and> \<not> it_safe it"
    by blast
  have k: "NewFloat ?ops (Float64_of_int ?ops (sint (128 :: 64 word))) = Inr 128"
    and ks: "Float_Sqrt ?ops 128 = Inr 128"
    and sg: "NewFloat ?ops (Float64_of_int ?ops 1) = Inr 1"
    and f0: "NewFloat ?ops (math_Sqrt ?ops (Float64_of_int ?ops (sint (4 * (1 :: 64 word))))) = Inr 4"
    by (simp_all add: NewFloat_def Float_Sqrt_def)
  from NewRingLWE_exhausted_search_returns_scheme[OF k ks sg f0 u refl, of "\<lambda>i. 0"]
  show ?thesis by blast
qed

section \<open>MA-ABE: sanity checks of decryption\<close>

text \<open>
  Claim C10. \<open>Decrypt\<close> returns an error for the empty list of attribute keys and for
  every list in which two keys carry different \<open>Gid\<close> values. The error is the same for
  every library, scheme and ciphertext: no pairing and no symmetric decryption takes
  part in it.
\<close>

theorem MAABE_Decrypt_rejects_bad_keys:
  assumes "ks = [] \<or> (\<exists>k\<in>set ks. \<exists>k'\<in>set ks. Gid k \<noteq> Gid k')"
  shows "MAABE_Decrypt lib a ct ks = Inl (if ks = [] then ErrEmptyKeys else ErrGidMismatch)"
proof (cases "ks = []")
  case True
  then show ?thesis by (simp add: MAABE_Decrypt_def)
next
  case False
  with assms obtain k k' where kk: "k \<in> set ks" "k' \<in> set ks" "Gid k \<noteq> Gid k'" by blast
  then have "Gid k \<noteq> Gid (ks ! 0) \<or> Gid k' \<noteq> Gid (ks ! 0)" by auto
  with kk have "list_ex (\<lambda>k. Gid k \<noteq> Gid (ks ! 0)) ks" by (auto simp: list_ex_iff)
  with False show ?thesis by (simp add: MAABE_Decrypt_def)
qed

theorem MAABE_Decrypt_rejects_bad_keys_witness:
  "MAABE_Decrypt lib7 (NewMAABE lib7)
     \<lparr>C0 = 0, C1x = Map.empty, C2x = Map.empty, C3x = Map.empty, Msp = msp_ab,
      SymEnc = [], Iv = []\<rparr> [] = Inl ErrEmptyKeys
   \<and> MAABE_Decrypt lib7 (NewMAABE lib7)
        \<lparr>C0 = 0, C1x = Map.empty, C2x = Map.empty, C3x = Map.empty, Msp = msp_ab,
         SymEnc = [], Iv = []\<rparr>
        [\<lparr>Gid = ''alice'', Attrib = ''1'', Key = 3\<rparr>, \<lparr>Gid = ''bob'', Attrib = ''2'', Key = 5\<rparr>]
      = Inl ErrGidMismatch"
proof -
  let ?ks = "[\<lparr>Gid = ''alice'', Attrib = ''1'', Key = 3\<rparr>, \<lparr>Gid = ''bob'', Attrib = ''2'', Key = 5\<rparr>]"
  let ?ct = "\<lparr>C0 = 0, C1x = Map.empty, C2x = Map.empty, C3x = Map.empty, Msp = msp_ab,
      SymEnc = [], Iv = []\<rparr>"
  have "?ks ! 0 \<in> set ?ks" "?ks ! 1 \<in> set ?ks" "Gid (?ks ! 0) \<noteq> Gid (?ks ! 1)"
    by simp_all
  then have "\<exists>k\<in>set ?ks. \<exists>k'\<in>set ?ks. Gid k \<noteq> Gid k'" by blast
  then have h: "?ks = [] \<or> (\<exists>k\<in>set ?ks. \<exists>k'\<in>set ?ks. Gid k \<noteq> Gid k')" ..
  have e: "([] :: MAABEKey list) = [] \<or> (\<exists>k\<in>set []. \<exists>k'\<in>set []. Gid k \<noteq> Gid k')" by simp
  show ?thesis
    using MAABE_Decrypt_rejects_bad_keys[OF e, of lib7 "NewMAABE lib7" ?ct]
      MAABE_Decrypt_rejects_bad_keys[OF h, of lib7 "NewMAABE lib7" ?ct]
    by simp
qed

section \<open>MA-ABE: attribute keys\<close>

lemma traverse_Inl:
  "x \<in> set xs \<Longrightarrow> f x = Inl e \<Longrightarrow> \<exists>e'. traverse f xs = Inl e'"
  by (induction xs) (auto simp: bind_err_def split: sum.splits)

text \<open>
  Claim C8. For a non-empty \<open>gid\<close> and a non-empty list of attributes, if the authority
  holds every requested attribute, \<open>GenerateAttribKeys\<close> returns one key per attribute,
  in order, with \<open>Gid = gid\<close>, \<open>Attrib = a\<close> and \<open>Key = g1^alpha\<^sub>a * HashG1(gid)^y\<^sub>a\<close>
  (given that the authority has its scheme and that the hash of \<open>gid\<close> succeeds); if
  some requested attribute is not held, it returns an error.
\<close>

theorem GenerateAttribKeys_spec:
  assumes gid: "gid \<noteq> []" and attribs: "attribs \<noteq> []"
  shows "(Maabe auth = Some a \<and> HashG1 lib gid = Some h
           \<and> (\<forall>at\<in>set attribs. Alpha (Sk auth) at = Some (al at) \<and> Y (Sk auth) at = Some (y at))
         \<longrightarrow> GenerateAttribKeys lib auth gid attribs =
               Inr (map (\<lambda>at. \<lparr>Gid = gid, Attrib = at,
                      Key = grp_Add lib (ScalarMult lib (maabe_g1 a) (al at))
                              (ScalarMult lib h (y at))\<rparr>) attribs))
       \<and> ((\<exists>at\<in>set attribs. Alpha (Sk auth) at = None \<or> Y (Sk auth) at = None)
         \<longrightarrow> (\<exists>e. GenerateAttribKeys lib auth gid attribs = Inl e))"
proof (intro conjI)
  show "Maabe auth = Some a \<and> HashG1 lib gid = Some h
           \<and> (\<forall>at\<in>set attribs. Alpha (Sk auth) at = Some (al at) \<and> Y (Sk auth) at = Some (y at))
         \<longrightarrow> GenerateAttribKeys lib auth gid attribs =
               Inr (map (\<lambda>at. \<lparr>Gid = gid, Attrib = at,
                      Key = grp_Add lib (ScalarMult lib (maabe_g1 a) (al at))
                              (ScalarMult lib h (y at))\<rparr>) attribs)"
  proof
    assume h: "Maabe auth = Some a \<and> HashG1 lib gid = Some h
           \<and> (\<forall>at\<in>set attribs. Alpha (Sk auth) at = Some (al at) \<and> Y (Sk auth) at = Some (y at))"
    have "traverse (attrib_key lib auth a gid h) attribs =
            Inr (map (\<lambda>at. \<lparr>Gid = gid, Attrib = at,
                      Key = grp_Add lib (ScalarMult lib (maabe_g1 a) (al at))
                              (ScalarMult lib h (y at))\<rparr>) attribs)"
      by (rule traverse_total) (use h in \<open>simp add: attrib_key_def\<close>)
    with gid attribs h show "GenerateAttribKeys lib auth gid attribs =
               Inr (map (\<lambda>at. \<lparr>Gid = gid, Attrib = at,
                      Key = grp_Add lib (ScalarMult lib (maabe_g1 a) (al at))
                              (ScalarMult lib h (y at))\<rparr>) attribs)"
      by (simp add: GenerateAttribKeys_def)
  qed
next
  show "(\<exists>at\<in>set attribs. Alpha (Sk auth) at = None \<or> Y (Sk auth) at = None)
         \<longrightarrow> (\<exists>e. GenerateAttribKeys lib auth gid attribs = Inl e)"
  proof
    assume "\<exists>at\<in>set attribs. Alpha (Sk auth) at = None \<or> Y (Sk auth) at = None"
    then obtain at where at: "at \<in> set attribs"
      "Alpha (Sk auth) at = None \<or> Y (Sk auth) at = None" by blast
    have "\<exists>e'. traverse (attrib_key lib auth a' gid h') attribs = Inl e'" for a' h'
    proof (rule traverse_Inl[OF at(1)])
      show "attrib_key lib auth a' gid h' at = Inl ErrAttribNotInSecKey"
        using at(2) by (auto simp: attrib_key_def split: option.splits)
    qed
    then show "\<exists>e. GenerateAttribKeys lib auth gid attribs = Inl e"
      by (auto simp: GenerateAttribKeys_def split: option.splits)
  qed
qed

theorem GenerateAttribKeys_spec_witness:
  "GenerateAttribKeys lib7 auth1 ''alice'' [''a''] = Inr [\<lparr>Gid = ''alice'', Attrib = ''a'', Key = 0\<rparr>]
   \<and> (\<exists>e. GenerateAttribKeys lib7 auth1 ''alice'' [''a'', ''b''] = Inl e)"
proof -
  have g: "''alice'' \<noteq> []" and a1: "[''a''] \<noteq> []" and a2: "[''a'', ''b''] \<noteq> []" by simp_all
  have "GenerateAttribKeys lib7 auth1 ''alice'' [''a''] =
          Inr (map (\<lambda>at. \<lparr>Gid = ''alice'', Attrib = at,
                 Key = grp_Add lib7 (ScalarMult lib7 (maabe_g1 (NewMAABE lib7)) ((\<lambda>_. 2) at))
                         (ScalarMult lib7 4 ((\<lambda>_. 3) at))\<rparr>) [''a''])"
    using GenerateAttribKeys_spec[OF g a1, of auth1 "NewMAABE lib7" lib7 4 "\<lambda>_. 2" "\<lambda>_. 3"]
    by (simp add: auth1_def lib7_def)
  moreover have "maabe_g1 (NewMAABE lib7) = 1"
    by (simp add: NewMAABE_def Let_def ScalarBaseMult_def ScalarMult_def lib7_def)
  moreover have "\<exists>e. GenerateAttribKeys lib7 auth1 ''alice'' [''a'', ''b''] = Inl e"
    using GenerateAttribKeys_spec[OF g a2, of auth1 "NewMAABE lib7" lib7 4 "\<lambda>_. 2" "\<lambda>_. 3"]
    by (simp add: auth1_def)
  ultimately show ?thesis
    by (simp add: grp_Add_def ScalarMult_def lib7_def)
qed

section \<open>MA-ABE: unpadding\<close>

text \<open>
  Claim C3 says that the unpadding step of \<open>Decrypt\<close> rejects the decrypted data when
  its last byte exceeds the AES block size 16. The code compares the byte with the
  length of the data only: 32 bytes ending in the byte 17 are accepted and lose their
  last 17 bytes.
\<close>

theorem unpad_accepts_beyond_block_size:
  "16 < (of_char (last (replicate 31 (CHR ''a'') @ [char_of (17 :: nat)])) :: int)
   \<and> unpad (replicate 31 (CHR ''a'') @ [char_of (17 :: nat)]) = Inr (replicate 15 (CHR ''a''))"
  by code_simp

text \<open>
  Claim C3, amended. On non-empty decrypted data the unpadding step returns an error
  when the last byte exceeds the length of the data, and otherwise strips that many
  bytes from the end.
\<close>

theorem unpad_spec:
  assumes "msgPad \<noteq> []"
  shows "unpad msgPad =
           (if length msgPad < of_char (last msgPad) then Inl ErrFailedToDecrypt
            else Inr (take (length msgPad - of_char (last msgPad)) msgPad))"
proof -
  have l: "msgPad ! (length msgPad - 1) = last msgPad"
    using assms by (simp add: last_conv_nth)
  define n where "n = (of_char (last msgPad) :: nat)"
  have e: "(of_char (last msgPad) :: int) = int n" by (simp add: n_def of_nat_of_char)
  have d: "nat (int (length msgPad) - int n) = length msgPad - n" by arith
  show ?thesis
    unfolding unpad_def l e Let_def n_def[symmetric] using assms by (auto simp: d)
qed

theorem unpad_spec_witness:
  "unpad ''hello!!'' = Inl ErrFailedToDecrypt
   \<and> unpad (''hi'' @ [char_of (2 :: nat), char_of (2 :: nat)]) = Inr ''hi''"
  using unpad_spec[of "''hello!!''"] unpad_spec[of "''hi'' @ [char_of (2 :: nat), char_of (2 :: nat)]"]
  by simp

section \<open>MA-ABE: encryption\<close>

lemma attribs_fresh_iff: "attribs_fresh xs m \<longleftrightarrow> distinct xs \<and> (\<forall>x\<in>set xs. \<not> m x)"
  by (induction xs arbitrary: m) auto

lemma pkcs7_pad_length: "length (pkcs7_pad msg) mod BlockSize = 0"
proof -
  have "(n + (16 - n mod 16)) mod 16 = 0" for n :: nat by presburger
  then show ?thesis by (simp add: pkcs7_pad_def BlockSize_def Let_def)
qed

lemma enc_envelope_cases:
  "enc_envelope lib rnd msg = Inl ErrRandomness
   \<or> (\<exists>k ivf. draw_symKey rnd = Some k \<and> draw_iv rnd = Some ivf
        \<and> enc_envelope lib rnd msg =
            Inr (ScalarBaseMult lib k,
                 CBCEncrypter lib (Sum256 lib (ScalarBaseMult lib k)) (map ivf [0..<BlockSize])
                   (pkcs7_pad msg),
                 map ivf [0..<BlockSize]))"
  by (simp add: enc_envelope_def CryptBlocks_def pkcs7_pad_length Let_def split: option.splits)

lemma index_map_ok:
  "length ats \<le> length xs \<Longrightarrow>
   \<exists>m'. index_map ats xs m = Inr m'
     \<and> (\<forall>x. x \<notin> set ats \<longrightarrow> m' x = m x)
     \<and> (\<forall>x\<in>set ats. m' x \<noteq> None)
     \<and> (distinct ats \<longrightarrow> (\<forall>i<length ats. m' (ats ! i) = Some (xs ! i)))"
proof (induction ats xs m rule: index_map.induct)
  case (1 xs m)
  then show ?case by simp
next
  case (2 at ats m)
  then show ?case by simp
next
  case (3 at ats x xs m)
  from "3.prems" have "length ats \<le> length xs" by simp
  from "3.IH"[OF this] obtain m' where m': "index_map ats xs (m(at \<mapsto> x)) = Inr m'"
    "\<forall>y. y \<notin> set ats \<longrightarrow> m' y = (m(at \<mapsto> x)) y"
    "\<forall>y\<in>set ats. m' y \<noteq> None"
    "distinct ats \<longrightarrow> (\<forall>i<length ats. m' (ats ! i) = Some (xs ! i))"
    by blast
  have a: "\<forall>y. y \<notin> set (at # ats) \<longrightarrow> m' y = m y" using m'(2) by simp
  have b: "\<forall>y\<in>set (at # ats). m' y \<noteq> None" using m'(2,3) by (metis fun_upd_same option.distinct(1) set_ConsD)
  have c: "distinct (at # ats) \<longrightarrow> (\<forall>i<length (at # ats). m' ((at # ats) ! i) = Some ((x # xs) ! i))"
  proof (intro impI allI)
    fix i assume d: "distinct (at # ats)" and i: "i < length (at # ats)"
    show "m' ((at # ats) ! i) = Some ((x # xs) ! i)"
    proof (cases i)
      case 0
      then show ?thesis using d m'(2) by simp
    next
      case (Suc j)
      then show ?thesis using d i m'(4) by simp
    qed
  qed
  from m'(1) a b c show ?case by simp
qed

lemma index_map_err: "index_map ats xs m = Inl e \<Longrightarrow> e = ErrPanic"
  by (induction ats xs m rule: index_map.induct) auto

lemma NewRandomVector_err: "NewRandomVector n src = Inl e \<Longrightarrow> e = ErrPanic \<or> e = ErrRandomness"
  by (auto simp: NewRandomVector_def split: if_splits option.splits)

lemma NewRandomVector_nat: "NewRandomVector (int n) src = Inl e \<Longrightarrow> e = ErrRandomness \<and> src = None"
  by (auto simp: NewRandomVector_def split: if_splits option.splits)

lemma NewRandomVector_Some: "NewRandomVector (int n) (Some f) = Inr (map f [0..<n])"
  by (simp add: NewRandomVector_def)

lemma MulVec_err: "MulVec m v = Inl e \<Longrightarrow> e = ErrDimMismatch"
  by (auto simp: MulVec_def split: if_splits)

lemma deref_err: "deref v = Inl e \<Longrightarrow> e = ErrPanic \<and> v = None"
  by (auto simp: deref_def split: option.splits)

lemma bind_err_eq_Inl:
  "bind_err r f = Inl e \<longleftrightarrow> r = Inl e \<or> (\<exists>x. r = Inr x \<and> f x = Inl e)"
  by (cases r) simp_all

lemma bind_err_eq_Inr:
  "bind_err r f = Inr y \<longleftrightarrow> (\<exists>x. r = Inr x \<and> f x = Inr y)"
  by (cases r) simp_all

lemma enc_attrib_err: "enc_attrib lib a pk lambda omega r at = Inl e \<Longrightarrow> e = ErrPanic"
  by (auto simp: enc_attrib_def bind_err_eq_Inl Let_def dest: deref_err)

lemma enc_attrib_ok:
  assumes "lambda at = Some lam" "omega at = Some om" "r at = Some rat"
    "EggToAlpha pk at = Some egg" "GToY pk at = Some gy"
  shows "enc_attrib lib a pk lambda omega r at =
     Inr (grp_Add lib (if 0 \<le> lam then ScalarMult lib (maabe_gt a) lam
                      else ScalarMult lib (grp_Neg lib (maabe_gt a)) \<bar>lam\<bar>) (ScalarMult lib egg rat),
          ScalarMult lib (maabe_g2 a) rat,
          grp_Add lib (ScalarMult lib gy rat)
            (if 0 \<le> om then ScalarMult lib (maabe_g2 a) om
                     else ScalarMult lib (grp_Neg lib (maabe_g2 a)) \<bar>om\<bar>))"
  using assms by (simp add: enc_attrib_def deref_def Let_def)

lemma enc_one_err:
  "enc_one lib a pks lambda omega r at = Inl e \<Longrightarrow>
     e = ErrPanic \<or> (e = ErrAttribNotInPubKeys \<and> (\<forall>pk\<in>set pks. EggToAlpha pk at = None))"
  by (auto simp: enc_one_def find_None_iff split: option.splits dest: enc_attrib_err)

lemma enc_one_uncovered:
  "\<forall>pk\<in>set pks. EggToAlpha pk at = None \<Longrightarrow>
     enc_one lib a pks lambda omega r at = Inl ErrAttribNotInPubKeys"
  by (simp add: enc_one_def find_None_iff[THEN iffD2])

lemma enc_attribs_err:
  "enc_attribs lib a pks lambda omega r ats cs = Inl e \<Longrightarrow>
     \<exists>at\<in>set ats. enc_one lib a pks lambda omega r at = Inl e"
proof (induction ats arbitrary: cs)
  case Nil
  then show ?case by simp
next
  case (Cons at ats)
  obtain c1 c2 c3 where cs: "cs = (c1, c2, c3)" by (cases cs) auto
  from Cons.prems show ?case
    unfolding cs by (auto simp: bind_err_eq_Inl dest: Cons.IH)
qed

lemma enc_attribs_Inr:
  "enc_attribs lib a pks lambda omega r ats cs = Inr cs' \<Longrightarrow>
     \<forall>at\<in>set ats. \<exists>t. enc_one lib a pks lambda omega r at = Inr t"
proof (induction ats arbitrary: cs)
  case Nil
  then show ?case by simp
next
  case (Cons at ats)
  obtain c1 c2 c3 where cs: "cs = (c1, c2, c3)" by (cases cs) auto
  from Cons.prems show ?case
    unfolding cs by (auto simp: bind_err_eq_Inr dest: Cons.IH)
qed

lemma enc_attribs_ok:
  assumes "\<forall>at\<in>set ats. \<exists>t. enc_one lib a pks lambda omega r at = Inr t"
  shows "\<exists>c1' c2' c3'. enc_attribs lib a pks lambda omega r ats (c1, c2, c3) = Inr (c1', c2', c3')
     \<and> (\<forall>at\<in>set ats. enc_one lib a pks lambda omega r at = Inr (the (c1' at), the (c2' at), the (c3' at))
           \<and> c1' at \<noteq> None \<and> c2' at \<noteq> None \<and> c3' at \<noteq> None)
     \<and> (\<forall>at. at \<notin> set ats \<longrightarrow> c1' at = c1 at \<and> c2' at = c2 at \<and> c3' at = c3 at)"
  using assms
proof (induction ats arbitrary: c1 c2 c3)
  case Nil
  then show ?case by simp
next
  case (Cons at ats)
  from Cons.prems obtain x1 x2 x3 where x: "enc_one lib a pks lambda omega r at = Inr (x1, x2, x3)"
    by (metis list.set_intros(1) prod_cases3)
  from Cons.prems have "\<forall>at\<in>set ats. \<exists>t. enc_one lib a pks lambda omega r at = Inr t" by simp
  from Cons.IH[OF this, of "c1(at \<mapsto> x1)" "c2(at \<mapsto> x2)" "c3(at \<mapsto> x3)"]
  obtain c1' c2' c3' where r:
    "enc_attribs lib a pks lambda omega r ats (c1(at \<mapsto> x1), c2(at \<mapsto> x2), c3(at \<mapsto> x3)) = Inr (c1', c2', c3')"
    "\<forall>at\<in>set ats. enc_one lib a pks lambda omega r at = Inr (the (c1' at), the (c2' at), the (c3' at))
           \<and> c1' at \<noteq> None \<and> c2' at \<noteq> None \<and> c3' at \<noteq> None"
    "\<forall>y. y \<notin> set ats \<longrightarrow> c1' y = (c1(at \<mapsto> x1)) y \<and> c2' y = (c2(at \<mapsto> x2)) y \<and> c3' y = (c3(at \<mapsto> x3)) y"
    by blast
  have 1: "enc_attribs lib a pks lambda omega r (at # ats) (c1, c2, c3) = Inr (c1', c2', c3')"
    using x r(1) by simp
  have 2: "enc_one lib a pks lambda omega r y = Inr (the (c1' y), the (c2' y), the (c3' y))
           \<and> c1' y \<noteq> None \<and> c2' y \<noteq> None \<and> c3' y \<noteq> None" if "y \<in> set (at # ats)" for y
  proof (cases "y \<in> set ats")
    case True
    then show ?thesis using r(2) by blast
  next
    case False
    with that have "y = at" by simp
    with False r(3) x show ?thesis by simp
  qed
  have 3: "\<forall>y. y \<notin> set (at # ats) \<longrightarrow> c1' y = c1 y \<and> c2' y = c2 y \<and> c3' y = c3 y"
    using r(3) by simp
  from 1 2 3 show ?case by blast
qed


lemma enc_one_no_panic:
  assumes "lambda at \<noteq> None" "omega at \<noteq> None" "r at \<noteq> None"
    and "\<forall>pk\<in>set pks. \<forall>at. EggToAlpha pk at \<noteq> None \<longrightarrow> GToY pk at \<noteq> None"
  shows "enc_one lib a pks lambda omega r at \<noteq> Inl ErrPanic"
proof (cases "find (\<lambda>pk. EggToAlpha pk at \<noteq> None) pks")
  case None
  then show ?thesis by (simp add: enc_one_def)
next
  case (Some pk)
  then have "pk \<in> set pks" "EggToAlpha pk at \<noteq> None"
    by (auto simp: find_Some_iff)
  with assms obtain lam om rat egg gy where v:
    "lambda at = Some lam" "omega at = Some om" "r at = Some rat"
    "EggToAlpha pk at = Some egg" "GToY pk at = Some gy"
    by blast
  from enc_attrib_ok[of lambda at lam omega om r rat pk egg gy lib a, OF v] Some
  show ?thesis by (simp add: enc_one_def)
qed

lemma MulVec_Cols: "length v = Cols m \<Longrightarrow> MulVec m v = Inr (map (\<lambda>row. Dot row v) m)"
  by (simp add: MulVec_def)

text \<open>The run of enc_shares when the three draws succeed.\<close>

lemma enc_shares_run:
  assumes wf: "length (RowToAttrib msp) = length (Mat msp)"
    and dv: "draw_v rnd = Some fv" and dw: "draw_w rnd = Some fw" and dr: "draw_rI rnd = Some fr"
  shows "\<exists>lambda omega r.
     enc_shares lib a rnd msp pks symKey =
       bind_err (enc_attribs lib a pks lambda omega r (RowToAttrib msp)
                      (Map.empty, Map.empty, Map.empty)) (\<lambda>(c1, c2, c3).
          Inr (grp_Add lib symKey (ScalarMult lib (maabe_gt a) (map fv [0..<Cols (Mat msp)] ! 0)),
               c1, c2, c3))
     \<and> (\<forall>at\<in>set (RowToAttrib msp). lambda at \<noteq> None \<and> omega at \<noteq> None \<and> r at \<noteq> None)
     \<and> (distinct (RowToAttrib msp) \<longrightarrow> (\<forall>i<length (Mat msp).
          lambda (RowToAttrib msp ! i) = Some (Dot (Mat msp ! i) (map fv [0..<Cols (Mat msp)]))
        \<and> omega (RowToAttrib msp ! i) = Some (Dot (Mat msp ! i) ((map fw [0..<Cols (Mat msp)])[0 := 0]))
        \<and> r (RowToAttrib msp ! i) = Some (fr i)))"
proof -
  let ?M = "Mat msp" and ?R = "RowToAttrib msp"
  let ?v = "map fv [0..<Cols ?M]" and ?w = "(map fw [0..<Cols ?M])[0 := 0]"
  let ?rI = "map fr [0..<Rows ?M]"
  have v: "NewRandomVector (int (Cols ?M)) (draw_v rnd) = Inr ?v"
    and w: "NewRandomVector (int (Cols ?M)) (draw_w rnd) = Inr (map fw [0..<Cols ?M])"
    and rI: "NewRandomVector (int (Rows ?M)) (draw_rI rnd) = Inr ?rI"
    by (simp_all add: dv dw dr NewRandomVector_Some)
  have mv: "MulVec ?M ?v = Inr (map (\<lambda>row. Dot row ?v) ?M)"
    and mw: "MulVec ?M ?w = Inr (map (\<lambda>row. Dot row ?w) ?M)"
    by (simp_all add: MulVec_Cols)
  from index_map_ok[of ?R "map (\<lambda>row. Dot row ?v) ?M" Map.empty] wf
  obtain lambda where lam: "index_map ?R (map (\<lambda>row. Dot row ?v) ?M) Map.empty = Inr lambda"
    "\<forall>x\<in>set ?R. lambda x \<noteq> None"
    "distinct ?R \<longrightarrow> (\<forall>i<length ?R. lambda (?R ! i) = Some (map (\<lambda>row. Dot row ?v) ?M ! i))"
    by auto
  from index_map_ok[of ?R "map (\<lambda>row. Dot row ?w) ?M" Map.empty] wf
  obtain omega where om: "index_map ?R (map (\<lambda>row. Dot row ?w) ?M) Map.empty = Inr omega"
    "\<forall>x\<in>set ?R. omega x \<noteq> None"
    "distinct ?R \<longrightarrow> (\<forall>i<length ?R. omega (?R ! i) = Some (map (\<lambda>row. Dot row ?w) ?M ! i))"
    by auto
  from index_map_ok[of ?R ?rI Map.empty] wf
  obtain r where r: "index_map ?R ?rI Map.empty = Inr r"
    "\<forall>x\<in>set ?R. r x \<noteq> None"
    "distinct ?R \<longrightarrow> (\<forall>i<length ?R. r (?R ! i) = Some (?rI ! i))"
    by (auto simp: Rows_def)
  have run: "enc_shares lib a rnd msp pks symKey =
       bind_err (enc_attribs lib a pks lambda omega r ?R (Map.empty, Map.empty, Map.empty))
         (\<lambda>(c1, c2, c3).
          Inr (grp_Add lib symKey (ScalarMult lib (maabe_gt a) (?v ! 0)), c1, c2, c3))"
    unfolding enc_shares_def Let_def v w rI mv mw bind_err_Inr drop_err_Inr
    by (simp add: Rows_def lam(1) om(1) r(1)[unfolded Rows_def])
  have vals: "distinct ?R \<longrightarrow> (\<forall>i<length ?M.
          lambda (?R ! i) = Some (Dot (?M ! i) ?v)
        \<and> omega (?R ! i) = Some (Dot (?M ! i) ?w)
        \<and> r (?R ! i) = Some (fr i))"
    using lam(3) om(3) r(3) wf by (simp add: Rows_def)
  from run lam(2) om(2) r(2) vals show ?thesis by blast
qed

lemma enc_shares_uncovered:
  assumes wf: "length (RowToAttrib msp) = length (Mat msp)"
    and pkwf: "\<forall>pk\<in>set pks. \<forall>at. EggToAlpha pk at \<noteq> None \<longrightarrow> GToY pk at \<noteq> None"
    and dr: "draw_rI rnd \<noteq> None"
    and unc: "\<exists>at\<in>set (RowToAttrib msp). \<forall>pk\<in>set pks. EggToAlpha pk at = None"
  shows "\<exists>e. enc_shares lib a rnd msp pks symKey = Inl e \<and> e \<noteq> ErrPanic"
proof (cases "draw_v rnd")
  case None
  then show ?thesis by (simp add: enc_shares_def NewRandomVector_def Let_def)
next
  case (Some fv)
  note dv = this
  let ?M = "Mat msp" and ?R = "RowToAttrib msp"
  let ?v = "map fv [0..<Cols ?M]"
  show ?thesis
  proof (cases "draw_w rnd")
    case None
    from index_map_ok[of ?R "map (\<lambda>row. Dot row ?v) ?M" Map.empty] wf
    obtain lambda where "index_map ?R (map (\<lambda>row. Dot row ?v) ?M) Map.empty = Inr lambda"
      by auto
    then show ?thesis
      using None dv
      by (simp add: enc_shares_def NewRandomVector_def Let_def MulVec_Cols Rows_def)
  next
    case (Some fw)
    from dr obtain fr where dr': "draw_rI rnd = Some fr" by auto
    from enc_shares_run[OF wf dv Some dr', of lib a pks symKey]
    obtain lambda omega r where run:
      "enc_shares lib a rnd msp pks symKey =
         bind_err (enc_attribs lib a pks lambda omega r ?R (Map.empty, Map.empty, Map.empty))
           (\<lambda>(c1, c2, c3).
            Inr (grp_Add lib symKey (ScalarMult lib (maabe_gt a) (?v ! 0)), c1, c2, c3))"
      and def: "\<forall>at\<in>set ?R. lambda at \<noteq> None \<and> omega at \<noteq> None \<and> r at \<noteq> None"
      by blast
    from unc obtain at where at: "at \<in> set ?R" "\<forall>pk\<in>set pks. EggToAlpha pk at = None" by blast
    show ?thesis
    proof (cases "enc_attribs lib a pks lambda omega r ?R (Map.empty, Map.empty, Map.empty)")
      case (Inl e)
      from enc_attribs_err[OF Inl] obtain at' where
        "at' \<in> set ?R" "enc_one lib a pks lambda omega r at' = Inl e" by blast
      with enc_one_no_panic[of lambda at' omega r pks lib a] def pkwf have "e \<noteq> ErrPanic"
        by auto
      with run Inl show ?thesis by simp
    next
      case (Inr cs)
      from enc_attribs_Inr[OF Inr] at(1) enc_one_uncovered[OF at(2), of lib a lambda omega r]
      show ?thesis by auto
    qed
  qed
qed

lemma enc_shares_err_cases:
  assumes "enc_shares lib a rnd msp pks symKey = Inl ErrAttribNotInPubKeys"
  shows "\<exists>at\<in>set (RowToAttrib msp). \<forall>pk\<in>set pks. EggToAlpha pk at = None"
proof -
  have *: "\<exists>at\<in>set (RowToAttrib msp). \<forall>pk\<in>set pks. EggToAlpha pk at = None"
    if "enc_attribs lib a pks lambda omega r (RowToAttrib msp) cs = Inl ErrAttribNotInPubKeys"
    for lambda omega r cs
    using enc_attribs_err[OF that] by (auto dest: enc_one_err)
  from assms show ?thesis
    unfolding enc_shares_def Let_def
    by (auto simp: bind_err_eq_Inl split: if_splits
        dest: NewRandomVector_err MulVec_err index_map_err *)
qed


lemma enc_one_covered:
  assumes "lambda at \<noteq> None" "omega at \<noteq> None" "r at \<noteq> None"
    and "\<forall>pk\<in>set pks. \<forall>at. EggToAlpha pk at \<noteq> None \<longrightarrow> GToY pk at \<noteq> None"
    and "\<exists>pk\<in>set pks. EggToAlpha pk at \<noteq> None"
  shows "\<exists>t. enc_one lib a pks lambda omega r at = Inr t"
proof -
  from assms(5) obtain pk where f: "find (\<lambda>pk. EggToAlpha pk at \<noteq> None) pks = Some pk"
    by (cases "find (\<lambda>pk. EggToAlpha pk at \<noteq> None) pks") (auto simp: find_None_iff)
  then have "pk \<in> set pks" "EggToAlpha pk at \<noteq> None"
    by (auto simp: find_Some_iff)
  with assms obtain lam om rat egg gy where v:
    "lambda at = Some lam" "omega at = Some om" "r at = Some rat"
    "EggToAlpha pk at = Some egg" "GToY pk at = Some gy"
    by blast
  from enc_attrib_ok[of lambda at lam omega om r rat pk egg gy lib a, OF v] f
  show ?thesis by (simp add: enc_one_def)
qed

lemma enc_envelope_ok:
  "draw_symKey rnd = Some k \<Longrightarrow> draw_iv rnd = Some ivf \<Longrightarrow>
     enc_envelope lib rnd msg =
       Inr (ScalarBaseMult lib k,
            CBCEncrypter lib (Sum256 lib (ScalarBaseMult lib k)) (map ivf [0..<BlockSize])
              (pkcs7_pad msg),
            map ivf [0..<BlockSize])"
  by (simp add: enc_envelope_def CryptBlocks_def pkcs7_pad_length Let_def)

lemma enc_shares_covered:
  assumes wf: "length (RowToAttrib msp) = length (Mat msp)"
    and pkwf: "\<forall>pk\<in>set pks. \<forall>at. EggToAlpha pk at \<noteq> None \<longrightarrow> GToY pk at \<noteq> None"
    and dv: "draw_v rnd = Some fv" and dw: "draw_w rnd = Some fw" and dr: "draw_rI rnd = Some fr"
    and cov: "\<forall>at\<in>set (RowToAttrib msp). \<exists>pk\<in>set pks. EggToAlpha pk at \<noteq> None"
  shows "\<exists>lambda omega r c1 c2 c3.
     enc_shares lib a rnd msp pks symKey =
       Inr (grp_Add lib symKey (ScalarMult lib (maabe_gt a) (map fv [0..<Cols (Mat msp)] ! 0)),
            c1, c2, c3)
     \<and> (\<forall>at\<in>set (RowToAttrib msp).
           enc_one lib a pks lambda omega r at = Inr (the (c1 at), the (c2 at), the (c3 at))
           \<and> c1 at \<noteq> None \<and> c2 at \<noteq> None \<and> c3 at \<noteq> None)
     \<and> (distinct (RowToAttrib msp) \<longrightarrow> (\<forall>i<length (Mat msp).
          lambda (RowToAttrib msp ! i) = Some (Dot (Mat msp ! i) (map fv [0..<Cols (Mat msp)]))
        \<and> omega (RowToAttrib msp ! i) = Some (Dot (Mat msp ! i) ((map fw [0..<Cols (Mat msp)])[0 := 0]))
        \<and> r (RowToAttrib msp ! i) = Some (fr i)))"
proof -
  let ?R = "RowToAttrib msp"
  from enc_shares_run[OF wf dv dw dr, of lib a pks symKey]
  obtain lambda omega r where run:
    "enc_shares lib a rnd msp pks symKey =
       bind_err (enc_attribs lib a pks lambda omega r ?R (Map.empty, Map.empty, Map.empty))
         (\<lambda>(c1, c2, c3).
          Inr (grp_Add lib symKey (ScalarMult lib (maabe_gt a) (map fv [0..<Cols (Mat msp)] ! 0)),
               c1, c2, c3))"
    and def: "\<forall>at\<in>set ?R. lambda at \<noteq> None \<and> omega at \<noteq> None \<and> r at \<noteq> None"
    and vals: "distinct ?R \<longrightarrow> (\<forall>i<length (Mat msp).
          lambda (?R ! i) = Some (Dot (Mat msp ! i) (map fv [0..<Cols (Mat msp)]))
        \<and> omega (?R ! i) = Some (Dot (Mat msp ! i) ((map fw [0..<Cols (Mat msp)])[0 := 0]))
        \<and> r (?R ! i) = Some (fr i))"
    by blast
  have "\<forall>at\<in>set ?R. \<exists>t. enc_one lib a pks lambda omega r at = Inr t"
    using def pkwf cov enc_one_covered[of lambda _ omega r pks lib a] by blast
  from enc_attribs_ok[OF this, of Map.empty Map.empty Map.empty]
  obtain c1 c2 c3 where c:
    "enc_attribs lib a pks lambda omega r ?R (Map.empty, Map.empty, Map.empty) = Inr (c1, c2, c3)"
    "\<forall>at\<in>set ?R. enc_one lib a pks lambda omega r at = Inr (the (c1 at), the (c2 at), the (c3 at))
           \<and> c1 at \<noteq> None \<and> c2 at \<noteq> None \<and> c3 at \<noteq> None"
    by blast
  from run c(1) have "enc_shares lib a rnd msp pks symKey =
       Inr (grp_Add lib symKey (ScalarMult lib (maabe_gt a) (map fv [0..<Cols (Mat msp)] ! 0)),
            c1, c2, c3)" by simp
  with c(2) vals show ?thesis by blast
qed

text \<open>
  An empty message and a repeated attribute are rejected with an error on every input:
  both tests stand in front of the first draw.
\<close>

lemma MAABE_Encrypt_rejects_empty_or_duplicate:
  "msg = [] \<or> \<not> distinct (RowToAttrib msp)
     \<Longrightarrow> \<exists>e. MAABE_Encrypt lib a rnd msg msp pks = Inl e \<and> e \<noteq> ErrPanic"
  by (auto simp: MAABE_Encrypt_def attribs_fresh_iff)

text \<open>
  The three checks of \<open>Encrypt\<close> when the draw of the vector \<open>r\<close> succeeds, for an MSP
  with one attribute per row and public keys that have both components of every attribute
  they know: an empty message, a repeated attribute and an attribute that no public key
  knows each give an error; for a non-empty message, an injective \<open>RowToAttrib\<close> and
  covering public keys none of these three errors is returned, and with a non-empty matrix
  and successful draws a ciphertext is.
\<close>

lemma MAABE_Encrypt_checks:
  assumes wf: "length (RowToAttrib msp) = length (Mat msp)"
    and pkwf: "\<forall>pk\<in>set pks. \<forall>at. EggToAlpha pk at \<noteq> None \<longrightarrow> GToY pk at \<noteq> None"
    and dr: "draw_rI rnd \<noteq> None"
  shows "(msg = [] \<or> \<not> distinct (RowToAttrib msp)
            \<or> (\<exists>at\<in>set (RowToAttrib msp). \<forall>pk\<in>set pks. EggToAlpha pk at = None)
          \<longrightarrow> (\<exists>e. MAABE_Encrypt lib a rnd msg msp pks = Inl e \<and> e \<noteq> ErrPanic))
       \<and> (msg \<noteq> [] \<and> distinct (RowToAttrib msp)
            \<and> (\<forall>at\<in>set (RowToAttrib msp). \<exists>pk\<in>set pks. EggToAlpha pk at \<noteq> None)
          \<longrightarrow> MAABE_Encrypt lib a rnd msg msp pks \<noteq> Inl ErrEmptyMessage
              \<and> MAABE_Encrypt lib a rnd msg msp pks \<noteq> Inl ErrDuplicateAttrib
              \<and> MAABE_Encrypt lib a rnd msg msp pks \<noteq> Inl ErrAttribNotInPubKeys
              \<and> (Mat msp \<noteq> [] \<and> Cols (Mat msp) \<noteq> 0 \<and> draw_symKey rnd \<noteq> None
                   \<and> draw_iv rnd \<noteq> None \<and> draw_v rnd \<noteq> None \<and> draw_w rnd \<noteq> None
                 \<longrightarrow> (\<exists>ct. MAABE_Encrypt lib a rnd msg msp pks = Inr ct)))"
proof (intro conjI impI)
  assume bad: "msg = [] \<or> \<not> distinct (RowToAttrib msp)
            \<or> (\<exists>at\<in>set (RowToAttrib msp). \<forall>pk\<in>set pks. EggToAlpha pk at = None)"
  show "\<exists>e. MAABE_Encrypt lib a rnd msg msp pks = Inl e \<and> e \<noteq> ErrPanic"
  proof (cases "length (Mat msp) = 0 \<or> Cols (Mat msp) = 0
      \<or> \<not> attribs_fresh (RowToAttrib msp) (\<lambda>_. False) \<or> length msg = 0")
    case True
    then show ?thesis by (auto simp: MAABE_Encrypt_def)
  next
    case False
    with bad have unc: "\<exists>at\<in>set (RowToAttrib msp). \<forall>pk\<in>set pks. EggToAlpha pk at = None"
      by (auto simp: attribs_fresh_iff)
    from enc_envelope_cases[of lib rnd msg] show ?thesis
    proof
      assume "enc_envelope lib rnd msg = Inl ErrRandomness"
      with False show ?thesis by (simp add: MAABE_Encrypt_def)
    next
      assume "\<exists>k ivf. draw_symKey rnd = Some k \<and> draw_iv rnd = Some ivf
        \<and> enc_envelope lib rnd msg =
            Inr (ScalarBaseMult lib k,
                 CBCEncrypter lib (Sum256 lib (ScalarBaseMult lib k)) (map ivf [0..<BlockSize])
                   (pkcs7_pad msg),
                 map ivf [0..<BlockSize])"
      then obtain k ivf where env: "enc_envelope lib rnd msg =
            Inr (ScalarBaseMult lib k,
                 CBCEncrypter lib (Sum256 lib (ScalarBaseMult lib k)) (map ivf [0..<BlockSize])
                   (pkcs7_pad msg),
                 map ivf [0..<BlockSize])" by blast
      from enc_shares_uncovered[OF wf pkwf dr unc, of lib a "ScalarBaseMult lib k"]
      obtain e where "enc_shares lib a rnd msp pks (ScalarBaseMult lib k) = Inl e" "e \<noteq> ErrPanic"
        by blast
      with False env show ?thesis by (simp add: MAABE_Encrypt_def)
    qed
  qed
next
  assume good: "msg \<noteq> [] \<and> distinct (RowToAttrib msp)
            \<and> (\<forall>at\<in>set (RowToAttrib msp). \<exists>pk\<in>set pks. EggToAlpha pk at \<noteq> None)"
  have env: "enc_envelope lib rnd msg \<noteq> Inl e" if "e \<noteq> ErrRandomness" for e
    using enc_envelope_cases[of lib rnd msg] that by auto
  have sh: "enc_shares lib a rnd msp pks k \<noteq> Inl ErrAttribNotInPubKeys" for k
  proof
    assume "enc_shares lib a rnd msp pks k = Inl ErrAttribNotInPubKeys"
    from enc_shares_err_cases[OF this] obtain at where
      "at \<in> set (RowToAttrib msp)" "\<forall>pk\<in>set pks. EggToAlpha pk at = None" by blast
    with good show False by auto
  qed
  have sh2: "enc_shares lib a rnd msp pks k \<noteq> Inl ErrEmptyMessage
           \<and> enc_shares lib a rnd msp pks k \<noteq> Inl ErrDuplicateAttrib" for k
    unfolding enc_shares_def Let_def
    by (auto simp: bind_err_eq_Inl split: if_splits
        dest: NewRandomVector_err MulVec_err index_map_err enc_attribs_err enc_one_err)
  show "MAABE_Encrypt lib a rnd msg msp pks \<noteq> Inl ErrEmptyMessage"
    using good sh2 env[of ErrEmptyMessage]
    by (auto simp: MAABE_Encrypt_def bind_err_eq_Inl split: if_splits)
  show "MAABE_Encrypt lib a rnd msg msp pks \<noteq> Inl ErrDuplicateAttrib"
    using good sh2 env[of ErrDuplicateAttrib]
    by (auto simp: MAABE_Encrypt_def bind_err_eq_Inl attribs_fresh_iff split: if_splits)
  show "MAABE_Encrypt lib a rnd msg msp pks \<noteq> Inl ErrAttribNotInPubKeys"
    using good sh env[of ErrAttribNotInPubKeys]
    by (auto simp: MAABE_Encrypt_def bind_err_eq_Inl split: if_splits)
  assume ok: "Mat msp \<noteq> [] \<and> Cols (Mat msp) \<noteq> 0 \<and> draw_symKey rnd \<noteq> None
                   \<and> draw_iv rnd \<noteq> None \<and> draw_v rnd \<noteq> None \<and> draw_w rnd \<noteq> None"
  then obtain fv fw where dv: "draw_v rnd = Some fv" and dw: "draw_w rnd = Some fw" by auto
  from dr obtain fr where dr': "draw_rI rnd = Some fr" by auto
  from ok obtain k ivf where "draw_symKey rnd = Some k" "draw_iv rnd = Some ivf" by auto
  note env' = enc_envelope_ok[OF this, of lib msg]
  from good have cov: "\<forall>at\<in>set (RowToAttrib msp). \<exists>pk\<in>set pks. EggToAlpha pk at \<noteq> None" by simp
  from enc_shares_covered[OF wf pkwf dv dw dr' cov, of lib a "ScalarBaseMult lib k"]
  obtain c0 c1 c2 c3 where
    "enc_shares lib a rnd msp pks (ScalarBaseMult lib k) = Inr (c0, c1, c2, c3)" by blast
  with good ok env' show "\<exists>ct. MAABE_Encrypt lib a rnd msg msp pks = Inr ct"
    by (simp add: MAABE_Encrypt_def attribs_fresh_iff)
qed


lemma MAABE_Encrypt_checks_witness:
  "(\<exists>e. MAABE_Encrypt lib7 (NewMAABE lib7) draws1 ''hi'' msp_ab [Pk auth1] = Inl e \<and> e \<noteq> ErrPanic)
   \<and> (\<exists>ct. MAABE_Encrypt lib7 (NewMAABE lib7) draws1 ''hi'' msp_ab [Pk auth1, Pk auth2] = Inr ct)"
proof -
  have wf: "length (RowToAttrib msp_ab) = length (Mat msp_ab)"
    by (simp add: msp_ab_def)
  have pk1: "\<forall>pk\<in>set [Pk auth1]. \<forall>at. EggToAlpha pk at \<noteq> None \<longrightarrow> GToY pk at \<noteq> None"
    and pk2: "\<forall>pk\<in>set [Pk auth1, Pk auth2]. \<forall>at. EggToAlpha pk at \<noteq> None \<longrightarrow> GToY pk at \<noteq> None"
    by (simp_all add: auth1_def auth2_def)
  have dr: "draw_rI draws1 \<noteq> None" by (simp add: draws1_def)
  have "''b'' \<in> set (RowToAttrib msp_ab)" "\<forall>pk\<in>set [Pk auth1]. EggToAlpha pk ''b'' = None"
    by (simp_all add: msp_ab_def auth1_def)
  then have unc: "\<exists>at\<in>set (RowToAttrib msp_ab). \<forall>pk\<in>set [Pk auth1]. EggToAlpha pk at = None"
    by blast
  have cov: "\<forall>at\<in>set (RowToAttrib msp_ab). \<exists>pk\<in>set [Pk auth1, Pk auth2]. EggToAlpha pk at \<noteq> None"
    by (simp add: msp_ab_def auth1_def auth2_def)
  have ok: "''hi'' \<noteq> [] \<and> distinct (RowToAttrib msp_ab)"
    "Mat msp_ab \<noteq> [] \<and> Cols (Mat msp_ab) \<noteq> 0 \<and> draw_symKey draws1 \<noteq> None
       \<and> draw_iv draws1 \<noteq> None \<and> draw_v draws1 \<noteq> None \<and> draw_w draws1 \<noteq> None"
    by (simp_all add: msp_ab_def draws1_def Cols_def)
  from MAABE_Encrypt_checks[OF wf pk1 dr, of "''hi''" lib7 "NewMAABE lib7"] unc
  have 1: "\<exists>e. MAABE_Encrypt lib7 (NewMAABE lib7) draws1 ''hi'' msp_ab [Pk auth1] = Inl e \<and> e \<noteq> ErrPanic"
    by blast
  from MAABE_Encrypt_checks[OF wf pk2 dr, of "''hi''" lib7 "NewMAABE lib7"] cov ok
  have 2: "\<exists>ct. MAABE_Encrypt lib7 (NewMAABE lib7) draws1 ''hi'' msp_ab [Pk auth1, Pk auth2] = Inr ct"
    by blast
  from 1 2 show ?thesis ..
qed

subsection \<open>A failed draw of the vector r\<close>

text \<open>Indexing an empty vector in the loop over \<open>RowToAttrib\<close> panics.\<close>

lemma index_map_nil_panics: "ats \<noteq> [] \<Longrightarrow> index_map ats [] m = Inl ErrPanic"
  by (cases ats) simp_all

lemma enc_shares_failed_draw:
  assumes wf: "length (RowToAttrib msp) = length (Mat msp)"
    and mat: "Mat msp \<noteq> []"
    and dv: "draw_v rnd = Some fv" and dw: "draw_w rnd = Some fw" and dr: "draw_rI rnd = None"
  shows "enc_shares lib a rnd msp pks symKey = Inl ErrPanic"
proof -
  let ?M = "Mat msp" and ?R = "RowToAttrib msp"
  let ?v = "map fv [0..<Cols ?M]" and ?w = "(map fw [0..<Cols ?M])[0 := 0]"
  have v: "NewRandomVector (int (Cols ?M)) (draw_v rnd) = Inr ?v"
    and w: "NewRandomVector (int (Cols ?M)) (draw_w rnd) = Inr (map fw [0..<Cols ?M])"
    by (simp_all add: dv dw NewRandomVector_Some)
  have rI: "NewRandomVector (int (Rows ?M)) (draw_rI rnd) = Inl ErrRandomness"
    by (simp add: dr NewRandomVector_def)
  have mv: "MulVec ?M ?v = Inr (map (\<lambda>row. Dot row ?v) ?M)"
    and mw: "MulVec ?M ?w = Inr (map (\<lambda>row. Dot row ?w) ?M)"
    by (simp_all add: MulVec_Cols)
  from index_map_ok[of ?R "map (\<lambda>row. Dot row ?v) ?M" Map.empty] wf
  obtain lambda where lam: "index_map ?R (map (\<lambda>row. Dot row ?v) ?M) Map.empty = Inr lambda"
    by auto
  from index_map_ok[of ?R "map (\<lambda>row. Dot row ?w) ?M" Map.empty] wf
  obtain omega where om: "index_map ?R (map (\<lambda>row. Dot row ?w) ?M) Map.empty = Inr omega"
    by auto
  from wf mat have "?R \<noteq> []" by auto
  then have r: "index_map ?R [] Map.empty = Inl ErrPanic"
    by (rule index_map_nil_panics)
  show ?thesis
    unfolding enc_shares_def Let_def v w rI mv mw bind_err_Inr
    by (simp add: Rows_def lam om r drop_err_def)
qed

text \<open>
  Claim C7. \<open>Encrypt\<close> is to return an error, and no ciphertext, whenever some attribute
  of \<open>RowToAttrib\<close> appears in none of the public keys. The code draws the vector \<open>rI\<close>,
  reads \<open>rI[i]\<close> for every row of the MSP, and only then tests the error of the draw
  (lines 337 to 344). When that draw fails, \<open>rI\<close> is \<open>nil\<close> and the read of \<open>rI[0]\<close> panics:
  for a non-empty message, a non-empty MSP with one attribute per row and an injective
  \<open>RowToAttrib\<close>, with an attribute that no public key knows, \<open>Encrypt\<close> panics instead
  of returning an error once the draws before \<open>rI\<close> have succeeded.
\<close>

theorem MAABE_Encrypt_failed_draw_panics:
  assumes wf: "length (RowToAttrib msp) = length (Mat msp)"
    and mat: "Mat msp \<noteq> []" "Cols (Mat msp) \<noteq> 0"
    and msg: "msg \<noteq> []"
    and inj: "distinct (RowToAttrib msp)"
    and unc: "\<exists>at\<in>set (RowToAttrib msp). \<forall>pk\<in>set pks. EggToAlpha pk at = None"
    and draws: "draw_symKey rnd \<noteq> None" "draw_iv rnd \<noteq> None"
      "draw_v rnd \<noteq> None" "draw_w rnd \<noteq> None"
    and dr: "draw_rI rnd = None"
  shows "MAABE_Encrypt lib a rnd msg msp pks = Inl ErrPanic"
proof -
  from draws obtain k ivf fv fw where d:
    "draw_symKey rnd = Some k" "draw_iv rnd = Some ivf"
    "draw_v rnd = Some fv" "draw_w rnd = Some fw" by auto
  note env = enc_envelope_ok[OF d(1,2), of lib msg]
  note sh = enc_shares_failed_draw[OF wf mat(1) d(3,4) dr, of lib a pks "ScalarBaseMult lib k"]
  from mat msg inj show ?thesis
    by (simp add: MAABE_Encrypt_def attribs_fresh_iff env sh)
qed

theorem MAABE_Encrypt_failed_draw_panics_witness:
  "(\<exists>at\<in>set (RowToAttrib msp_ab). \<forall>pk\<in>set [Pk auth1]. EggToAlpha pk at = None)
   \<and> MAABE_Encrypt lib7 (NewMAABE lib7) (draws1\<lparr>draw_rI := None\<rparr>) ''hi'' msp_ab [Pk auth1]
       = Inl ErrPanic"
proof -
  have wf: "length (RowToAttrib msp_ab) = length (Mat msp_ab)"
    and mat: "Mat msp_ab \<noteq> []" "Cols (Mat msp_ab) \<noteq> 0"
    and inj: "distinct (RowToAttrib msp_ab)"
    by (simp_all add: msp_ab_def Cols_def)
  have "''b'' \<in> set (RowToAttrib msp_ab)" "\<forall>pk\<in>set [Pk auth1]. EggToAlpha pk ''b'' = None"
    by (simp_all add: msp_ab_def auth1_def)
  then have unc: "\<exists>at\<in>set (RowToAttrib msp_ab). \<forall>pk\<in>set [Pk auth1]. EggToAlpha pk at = None"
    by blast
  have draws: "draw_symKey (draws1\<lparr>draw_rI := None\<rparr>) \<noteq> None"
    "draw_iv (draws1\<lparr>draw_rI := None\<rparr>) \<noteq> None"
    "draw_v (draws1\<lparr>draw_rI := None\<rparr>) \<noteq> None"
    "draw_w (draws1\<lparr>draw_rI := None\<rparr>) \<noteq> None"
    and dr: "draw_rI (draws1\<lparr>draw_rI := None\<rparr>) = None"
    by (simp_all add: draws1_def)
  have msg: "''hi'' \<noteq> []" by simp
  from MAABE_Encrypt_failed_draw_panics[OF wf mat msg inj unc draws dr, of lib7 "NewMAABE lib7"] unc
  show ?thesis by blast
qed

section \<open>MA-ABE: decryption and the round trip\<close>

lemma aToK_lookup:
  "fold (\<lambda>k m. m(Attrib k \<mapsto> k)) ks m0 at = Some k \<Longrightarrow>
     (k \<in> set ks \<and> Attrib k = at) \<or> m0 at = Some k"
proof (induction ks arbitrary: m0)
  case Nil
  then show ?case by simp
next
  case (Cons x ks)
  from Cons.prems have "fold (\<lambda>k m. m(Attrib k \<mapsto> k)) ks (m0(Attrib x \<mapsto> x)) at = Some k"
    by (simp only: fold.simps o_apply)
  from Cons.IH[OF this] show ?case by (auto split: if_splits)
qed

lemma aToK_dom:
  "fold (\<lambda>k m. m(Attrib k \<mapsto> k)) ks m0 at \<noteq> None \<longleftrightarrow> at \<in> Attrib ` set ks \<or> m0 at \<noteq> None"
proof (induction ks arbitrary: m0)
  case Nil
  then show ?case by simp
next
  case (Cons x ks)
  have "fold (\<lambda>k m. m(Attrib k \<mapsto> k)) (x # ks) m0 at
          = fold (\<lambda>k m. m(Attrib k \<mapsto> k)) ks (m0(Attrib x \<mapsto> x)) at"
    by (simp only: fold.simps o_apply)
  then show ?case using Cons.IH[of "m0(Attrib x \<mapsto> x)"] by auto
qed

lemma good_rows_zip:
  "length mat = length ats \<Longrightarrow>
   good_rows aToK ats mat =
     Inr (map fst (filter (\<lambda>(row, at). aToK at \<noteq> None) (zip mat ats)),
          map snd (filter (\<lambda>(row, at). aToK at \<noteq> None) (zip mat ats)))"
proof (induction ats arbitrary: mat)
  case Nil
  then show ?case by simp
next
  case (Cons at ats)
  then obtain row rows where mat: "mat = row # rows" by (cases mat) auto
  with Cons.prems have "length rows = length ats" by simp
  from Cons.IH[OF this] show ?case by (simp add: mat)
qed

lemma zip_nth_upt:
  "length M = length R \<Longrightarrow> zip M R = map (\<lambda>i. (M ! i, R ! i)) [0..<length R]"
  by (rule nth_equalityI) simp_all

lemma good_pairs_index:
  assumes len: "length M = length R" and d: "distinct R" and S: "S \<subseteq> {..<length R}"
  shows "filter (\<lambda>(row, at). at \<in> (\<lambda>i. R ! i) ` S) (zip M R)
           = map (\<lambda>i. (M ! i, R ! i)) (filter (\<lambda>i. i \<in> S) [0..<length R])"
proof -
  have "(R ! i \<in> (\<lambda>i. R ! i) ` S) = (i \<in> S)" if "i < length R" for i
  proof
    assume "R ! i \<in> (\<lambda>i. R ! i) ` S"
    then obtain j where j: "j \<in> S" "R ! i = R ! j" by blast
    with S have "j < length R" by auto
    with d that j(2) have "i = j" by (simp add: nth_eq_iff_index_eq)
    with j(1) show "i \<in> S" by simp
  qed blast
  then have "filter ((\<lambda>(row, at). at \<in> (\<lambda>i. R ! i) ` S) \<circ> (\<lambda>i. (M ! i, R ! i))) [0..<length R]
               = filter (\<lambda>i. i \<in> S) [0..<length R]"
    by (intro filter_cong) auto
  then show ?thesis by (simp add: zip_nth_upt[OF len] filter_map)
qed

lemma Dot_sum: "length a = length b \<Longrightarrow> Dot a b = (\<Sum>j<length a. a ! j * b ! j)"
proof -
  assume l: "length a = length b"
  have "Dot a b = (\<Sum>i = 0..<length (map2 (*) a b). map2 (*) a b ! i)"
    unfolding Dot_def by (rule sum_list_sum_nth)
  also have "\<dots> = (\<Sum>j<length a. a ! j * b ! j)"
    using l by (simp add: atLeast0LessThan)
  finally show ?thesis .
qed

lemma sum_mod_cong:
  fixes f g :: "'a \<Rightarrow> int"
  assumes "\<And>k. k \<in> A \<Longrightarrow> f k mod p = g k mod p"
  shows "sum f A mod p = sum g A mod p"
proof -
  have "sum f A mod p = (\<Sum>k\<in>A. f k mod p) mod p" by (simp add: mod_sum_eq)
  also have "\<dots> = (\<Sum>k\<in>A. g k mod p) mod p" using assms by simp
  also have "\<dots> = sum g A mod p" by (simp add: mod_sum_eq)
  finally show ?thesis .
qed

lemma unit_vec_nth: "j < d \<Longrightarrow> unit_vec d ! j = (if j = 0 then 1 else 0)"
  by (simp add: unit_vec_def nth_list_update)

lemma Transpose_rect:
  assumes "rect G n d" "0 < n"
  shows "Transpose G = map (\<lambda>j. map (\<lambda>row. row ! j) G) [0..<d]"
  using assms by (simp add: Transpose_def Cols_rect)

lemma Cols_Transpose:
  assumes "rect G n d" "0 < n" "0 < d"
  shows "Cols (Transpose G) = n"
  using assms by (simp add: Transpose_rect[OF assms(1,2)] Cols_def upt_conv_Cons rect_def)

lemma solves_Transpose:
  assumes G: "rect G n d" and n: "0 < n" and d: "0 < d"
    and c: "solves (Transpose G) (unit_vec d) p c"
  shows "length c = n"
    and "\<forall>j<d. (\<Sum>k<n. G ! k ! j * c ! k) mod p = (if j = 0 then 1 else 0) mod p"
proof -
  from c show lc: "length c = n" by (simp add: solves_def Cols_Transpose[OF G n d])
  show "\<forall>j<d. (\<Sum>k<n. G ! k ! j * c ! k) mod p = (if j = 0 then 1 else 0) mod p"
  proof (intro allI impI)
    fix j assume j: "j < d"
    from c have "map (\<lambda>row. Dot row c mod p) (Transpose G) = map (\<lambda>x. x mod p) (unit_vec d)"
      by (simp add: solves_def)
    then have "map (\<lambda>row. Dot row c mod p) (Transpose G) ! j = map (\<lambda>x. x mod p) (unit_vec d) ! j"
      by simp
    then have "Dot (map (\<lambda>row. row ! j) G) c mod p = unit_vec d ! j mod p"
      using j by (simp add: Transpose_rect[OF G n] unit_vec_def)
    moreover have "Dot (map (\<lambda>row. row ! j) G) c = (\<Sum>k<n. G ! k ! j * c ! k)"
      using G lc by (simp add: Dot_sum rect_def)
    ultimately show "(\<Sum>k<n. G ! k ! j * c ! k) mod p = (if j = 0 then 1 else 0) mod p"
      using j by (simp add: unit_vec_nth)
  qed
qed

lemma span_dot:
  assumes G: "rect G n d" and n: "0 < n" and d: "0 < d"
    and c: "solves (Transpose G) (unit_vec d) p c"
    and u: "length u = d"
  shows "(\<Sum>k<n. c ! k * Dot (G ! k) u) mod p = (u ! 0) mod p"
proof -
  note sv = solves_Transpose[OF G n d c]
  have row: "length (G ! k) = d" if "k < n" for k
    using G that by (simp add: rect_def list_all_length)
  have "(\<Sum>k<n. c ! k * Dot (G ! k) u) = (\<Sum>k<n. \<Sum>j<d. (G ! k ! j * c ! k) * u ! j)"
    by (rule sum.cong) (simp_all add: Dot_sum row u sum_distrib_left mult_ac)
  also have "\<dots> = (\<Sum>j<d. \<Sum>k<n. (G ! k ! j * c ! k) * u ! j)"
    by (rule sum.swap)
  also have "\<dots> = (\<Sum>j<d. (\<Sum>k<n. G ! k ! j * c ! k) * u ! j)"
    by (simp add: sum_distrib_right)
  finally have e: "(\<Sum>k<n. c ! k * Dot (G ! k) u) = (\<Sum>j<d. (\<Sum>k<n. G ! k ! j * c ! k) * u ! j)" .
  have "(\<Sum>j<d. (\<Sum>k<n. G ! k ! j * c ! k) * u ! j) mod p
          = (\<Sum>j<d. (if j = 0 then 1 else 0) * u ! j) mod p"
  proof (rule sum_mod_cong)
    fix j assume "j \<in> {..<d}"
    then have "(\<Sum>k<n. G ! k ! j * c ! k) mod p = (if j = 0 then 1 else 0) mod p"
      using sv(2) by simp
    then show "(\<Sum>k<n. G ! k ! j * c ! k) * u ! j mod p = (if j = 0 then 1 else 0) * u ! j mod p"
      by (rule mod_mult_cong) simp
  qed
  also have "(\<Sum>j<d. (if j = 0 then 1 else 0) * u ! j) = u ! 0"
    using d by (simp add: if_distrib[of "\<lambda>x. x * _"] sum.delta' cong: if_cong)
  finally show ?thesis using e by simp
qed


lemma NewMAABE_gens:
  "1 < Order lib \<Longrightarrow>
     NewMAABE lib = \<lparr>maabe_P = Order lib, maabe_g1 = 1, maabe_g2 = 1, maabe_gt = 1\<rparr>"
  by (simp add: NewMAABE_def ScalarBaseMult_def ScalarMult_def Pair_def Let_def)

lemma signed_one:
  "(if 0 \<le> k then ScalarMult lib 1 k else ScalarMult lib (grp_Neg lib 1) \<bar>k\<bar>) mod Order lib
     = k mod Order lib"
proof (cases "0 \<le> k")
  case True
  then show ?thesis by (simp add: ScalarMult_def)
next
  case False
  have "((- 1) mod Order lib * (- k)) mod Order lib = ((- 1) * (- k)) mod Order lib"
    by (rule mod_mult_left_eq)
  with False show ?thesis by (simp add: ScalarMult_def grp_Neg_def)
qed

lemma egg_value:
  fixes lib :: "'k lib"
  defines "p \<equiv> Order lib"
  assumes nn: "0 \<le> al" "0 \<le> y" "0 \<le> rat"
    and tL: "tL mod p = lam mod p" and tO: "tO mod p = om mod p"
    and c1: "c1 = grp_Add lib tL (ScalarMult lib (ScalarMult lib 1 al) rat)"
    and c2: "c2 = ScalarMult lib 1 rat"
    and c3: "c3 = grp_Add lib (ScalarMult lib (ScalarMult lib 1 y) rat) tO"
    and key: "key = grp_Add lib (ScalarMult lib 1 al) (ScalarMult lib h y)"
  shows "grp_Add lib (grp_Add lib c1 (Pair lib h c3)) (grp_Neg lib (Pair lib key c2)) mod p
           = (lam + h * om) mod p"
proof -
  have e1: "c1 mod p = (lam + al * rat) mod p"
  proof -
    have "c1 mod p = (tL + al * rat) mod p"
      using nn by (simp add: c1 grp_Add_def ScalarMult_def p_def mod_simps)
    also have "\<dots> = (lam + al * rat) mod p"
      by (rule mod_add_cong[OF tL refl])
    finally show ?thesis .
  qed
  have e3: "c3 mod p = (y * rat + om) mod p"
  proof -
    have "c3 mod p = (y * rat + tO) mod p"
      using nn by (simp add: c3 grp_Add_def ScalarMult_def p_def mod_simps)
    also have "\<dots> = (y * rat + om) mod p"
      by (rule mod_add_cong[OF refl tO])
    finally show ?thesis .
  qed
  have e2: "c2 mod p = rat mod p"
    using nn by (simp add: c2 ScalarMult_def p_def)
  have ek: "key mod p = (al + h * y) mod p"
    using nn by (simp add: key grp_Add_def ScalarMult_def p_def mod_simps)
  have "grp_Add lib (grp_Add lib c1 (Pair lib h c3)) (grp_Neg lib (Pair lib key c2)) mod p
          = (c1 + h * c3 - key * c2) mod p"
    by (simp add: grp_Add_def grp_Neg_def Pair_def p_def mod_simps)
  also have "\<dots> = ((lam + al * rat) + h * (y * rat + om) - (al + h * y) * rat) mod p"
    by (intro mod_diff_cong mod_add_cong mod_mult_cong e1 e2 e3 ek refl)
  also have "(lam + al * rat) + h * (y * rat + om) - (al + h * y) * rat = lam + h * om"
    by (simp add: algebra_simps)
  finally show ?thesis .
qed

lemma egg_lambdas_ok:
  assumes "\<forall>at\<in>set ats. egg_lambda lib ct aToK h at = Inr (E at)"
  shows "\<exists>m'. egg_lambdas lib ct aToK h ats m = Inr m'
           \<and> (\<forall>at\<in>set ats. m' at = Some (E at)) \<and> (\<forall>at. at \<notin> set ats \<longrightarrow> m' at = m at)"
  using assms
proof (induction ats arbitrary: m)
  case Nil
  then show ?case by simp
next
  case (Cons at ats)
  from Cons.prems have "\<forall>at\<in>set ats. egg_lambda lib ct aToK h at = Inr (E at)" by simp
  from Cons.IH[OF this, of "m(at \<mapsto> E at)"] obtain m' where m':
    "egg_lambdas lib ct aToK h ats (m(at \<mapsto> E at)) = Inr m'"
    "\<forall>x\<in>set ats. m' x = Some (E x)"
    "\<forall>x. x \<notin> set ats \<longrightarrow> m' x = (m(at \<mapsto> E at)) x"
    by blast
  have 1: "egg_lambdas lib ct aToK h (at # ats) m = Inr m'"
    using Cons.prems m'(1) by simp
  have 2: "\<forall>x\<in>set (at # ats). m' x = Some (E x)"
    using m'(2,3) by (metis fun_upd_same set_ConsD)
  have 3: "\<forall>x. x \<notin> set (at # ats) \<longrightarrow> m' x = m x"
    using m'(3) by simp
  from 1 2 3 show ?case by blast
qed

lemma sum_eggs_ok:
  assumes "\<forall>at\<in>set ats. el at = Some (E at) \<and> cx at = Some (cf at)"
  shows "\<exists>r. sum_eggs lib el cx ats eggs = Inr r
           \<and> r mod Order lib = (eggs + sum_list (map (\<lambda>at. cf at * E at) ats)) mod Order lib"
  using assms
proof (induction ats arbitrary: eggs)
  case Nil
  then show ?case by simp
next
  case (Cons at ats)
  let ?p = "Order lib"
  let ?S = "sum_list (map (\<lambda>at. cf at * E at) ats)"
  from Cons.prems have el: "el at = Some (E at)" and cx: "cx at = Some (cf at)"
    and rest: "\<forall>at\<in>set ats. el at = Some (E at) \<and> cx at = Some (cf at)" by simp_all
  define eggs' where "eggs' =
     (if 0 < cf at then grp_Add lib eggs (ScalarMult lib (E at) (cf at))
      else if cf at < 0 then grp_Add lib eggs (ScalarMult lib (grp_Neg lib (E at)) \<bar>cf at\<bar>)
      else eggs)"
  have step: "sum_eggs lib el cx (at # ats) eggs = sum_eggs lib el cx ats eggs'"
    by (simp add: el cx deref_def eggs'_def)
  have cong: "eggs' mod ?p = (eggs + cf at * E at) mod ?p"
  proof -
    consider "0 < cf at" | "cf at < 0" | "cf at = 0" by linarith
    then show ?thesis
    proof cases
      case 1
      then show ?thesis
        by (simp add: eggs'_def grp_Add_def ScalarMult_def mod_simps mult.commute)
    next
      case 2
      have "((- E at) mod ?p * (- cf at)) mod ?p = ((- E at) * (- cf at)) mod ?p"
        by (rule mod_mult_left_eq)
      then have "((- E at) mod ?p * (- cf at)) mod ?p = (cf at * E at) mod ?p"
        by (simp add: mult.commute)
      then have "(eggs + ((- E at) mod ?p * (- cf at)) mod ?p) mod ?p = (eggs + cf at * E at) mod ?p"
        by (simp add: mod_simps)
      with 2 show ?thesis
        by (simp add: eggs'_def grp_Add_def ScalarMult_def grp_Neg_def)
    next
      case 3
      then show ?thesis by (simp add: eggs'_def)
    qed
  qed
  from Cons.IH[OF rest, of eggs'] obtain r where r:
    "sum_eggs lib el cx ats eggs' = Inr r" "r mod ?p = (eggs' + ?S) mod ?p" by blast
  have "(eggs' + ?S) mod ?p = ((eggs + cf at * E at) + ?S) mod ?p"
    by (rule mod_add_cong[OF cong refl])
  with r step show ?case by (simp add: add.assoc)
qed

lemma unpad_pkcs7_pad: "unpad (pkcs7_pad msg) = Inr msg"
proof -
  define n where "n = BlockSize - length msg mod BlockSize"
  have n: "0 < n" "n \<le> 16" by (simp_all add: n_def BlockSize_def)
  have pad: "pkcs7_pad msg = msg @ replicate n (char_of n)"
    by (simp add: pkcs7_pad_def n_def Let_def)
  have "\<not> length msg + n - 1 < length msg" "length msg + n - 1 - length msg < n"
    using n by simp_all
  then have last: "(msg @ replicate n (char_of n)) ! (length msg + n - 1) = (char_of n :: char)"
    by (simp only: nth_append if_False nth_replicate)
  have "(of_char (char_of n :: char) :: nat) = n"
    using n by simp
  then have "int (of_char (char_of n :: char)) = int n" by simp
  then have oc: "(of_char (char_of n :: char) :: int) = int n"
    by (simp only: of_nat_of_char)
  have len: "length (msg @ replicate n (char_of n :: char)) = length msg + n" by simp
  have "unpad (msg @ replicate n (char_of n)) = Inr msg"
    unfolding unpad_def Let_def len last oc using n by simp
  then show ?thesis by (simp only: pad)
qed

lemma traverse_Inr_D:
  "traverse f xs = Inr ys \<Longrightarrow> y \<in> set ys \<Longrightarrow> \<exists>x\<in>set xs. f x = Inr y"
proof (induction xs arbitrary: ys)
  case Nil
  then show ?case by simp
next
  case (Cons x xs)
  from Cons.prems(1) obtain z zs where z: "f x = Inr z" "traverse f xs = Inr zs" "ys = z # zs"
    by (auto simp: bind_err_eq_Inr)
  with Cons.prems(2) Cons.IH[OF z(2)] show ?case by auto
qed

lemma GenerateAttribKeys_Inr_D:
  assumes "GenerateAttribKeys lib au gid attribs = Inr kl" and "k \<in> set kl"
  shows "\<exists>a h al y. Maabe au = Some a \<and> HashG1 lib gid = Some h
           \<and> Alpha (Sk au) (Attrib k) = Some al \<and> Y (Sk au) (Attrib k) = Some y
           \<and> Gid k = gid
           \<and> Key k = grp_Add lib (ScalarMult lib (maabe_g1 a) al) (ScalarMult lib h y)"
proof -
  from assms(1) obtain a h where ah: "Maabe au = Some a" "HashG1 lib gid = Some h"
    "traverse (attrib_key lib au a gid h) attribs = Inr kl"
    by (auto simp: GenerateAttribKeys_def split: if_splits option.splits)
  from traverse_Inr_D[OF ah(3) assms(2)] obtain at where
    "attrib_key lib au a gid h at = Inr k" by blast
  then show ?thesis using ah(1,2)
    by (auto simp: attrib_key_def split: option.splits)
qed


lemma sum_nth_distinct:
  fixes f :: "'a \<Rightarrow> int"
  assumes "distinct xs"
  shows "(\<Sum>k<length xs. f (xs ! k)) = sum f (set xs)"
proof -
  have "sum f (set xs) = sum_list (map f xs)"
    using assms by (simp add: sum_list_distinct_conv_sum_set)
  also have "\<dots> = (\<Sum>k = 0..<length (map f xs). map f xs ! k)"
    by (rule sum_list_sum_nth)
  also have "\<dots> = (\<Sum>k<length xs. f (xs ! k))"
    by (simp add: atLeast0LessThan)
  finally show ?thesis by simp
qed

lemma sub_rows_rect:
  assumes "rect M m d"
  shows "rect (sub_rows M S) (length (filter (\<lambda>i. i \<in> S) [0..<m])) d"
proof -
  from assms have m: "length M = m" and rows: "\<forall>i<m. length (M ! i) = d"
    by (simp_all add: rect_def list_all_length)
  show ?thesis
    unfolding rect_def sub_rows_def m using rows by (simp add: list_all_iff)
qed

lemma idx_nonempty:
  assumes "S \<subseteq> {..<m}" "S \<noteq> {}"
  shows "0 < length (filter (\<lambda>i. i \<in> S) [0..<m])"
proof -
  from assms obtain i where "i \<in> S" "i < m" by auto
  then have "i \<in> set (filter (\<lambda>i. i \<in> S) [0..<m])" by simp
  then show ?thesis by (cases "filter (\<lambda>i. i \<in> S) [0..<m]") auto
qed

lemma span_list:
  assumes M: "rect M m d" and S: "S \<subseteq> {..<m}" "S \<noteq> {}" and d: "0 < d"
    and sp: "spans_unit M S d p"
  shows "\<exists>x. solves (Transpose (sub_rows M S)) (unit_vec d) p x"
proof -
  let ?idx = "filter (\<lambda>i. i \<in> S) [0..<m]"
  let ?G = "sub_rows M S"
  let ?n = "length ?idx"
  have n: "0 < ?n" by (rule idx_nonempty[OF S])
  have G: "rect ?G ?n d" by (rule sub_rows_rect[OF M])
  from M n S have m: "length M = m" "0 < m" by (auto simp: rect_def)
  from sp obtain cS :: "nat \<Rightarrow> int" where
    cS: "\<forall>j<d. (\<Sum>i\<in>S. cS i * M ! i ! j) mod p = unit_vec d ! j mod p"
    by (auto simp: spans_unit_def)
  let ?x = "map cS ?idx"
  have set_idx: "set ?idx = S" using S by auto
  have Gk: "?G ! k = M ! (?idx ! k)" if "k < ?n" for k
    using that by (simp add: sub_rows_def m)
  have col: "Dot (map (\<lambda>row. row ! j) ?G) ?x = (\<Sum>i\<in>S. cS i * M ! i ! j)" for j
  proof -
    have "Dot (map (\<lambda>row. row ! j) ?G) ?x = (\<Sum>k<?n. ?G ! k ! j * cS (?idx ! k))"
      using G by (simp add: Dot_sum rect_def)
    also have "\<dots> = (\<Sum>k<?n. cS (?idx ! k) * M ! (?idx ! k) ! j)"
      by (rule sum.cong) (simp_all add: Gk mult.commute)
    also have "\<dots> = (\<Sum>i\<in>set ?idx. cS i * M ! i ! j)"
      by (rule sum_nth_distinct) simp
    finally show ?thesis by (simp only: set_idx)
  qed
  have "map (\<lambda>row. Dot row ?x mod p) (Transpose ?G) = map (\<lambda>c. c mod p) (unit_vec d)"
  proof (rule nth_equalityI)
    show "length (map (\<lambda>row. Dot row ?x mod p) (Transpose ?G)) = length (map (\<lambda>c. c mod p) (unit_vec d))"
      by (simp add: Transpose_rect[OF G n] unit_vec_def)
  next
    fix j assume "j < length (map (\<lambda>row. Dot row ?x mod p) (Transpose ?G))"
    then have j: "j < d" by (simp add: Transpose_rect[OF G n])
    then show "map (\<lambda>row. Dot row ?x mod p) (Transpose ?G) ! j = map (\<lambda>c. c mod p) (unit_vec d) ! j"
      using cS col[of j] by (simp add: Transpose_rect[OF G n] unit_vec_def)
  qed
  moreover have "length ?x = Cols (Transpose ?G)"
    by (simp add: Cols_Transpose[OF G n d])
  ultimately have "solves (Transpose ?G) (unit_vec d) p ?x"
    by (simp add: solves_def)
  then show ?thesis ..
qed

lemma good_rows_sub:
  assumes len: "length M = length R" and dist: "distinct R" and S: "S \<subseteq> {..<length R}"
    and ks: "Attrib ` set ks = (\<lambda>i. R ! i) ` S"
  shows "good_rows (fold (\<lambda>k m. m(Attrib k \<mapsto> k)) ks Map.empty) R M =
           Inr (sub_rows M S, map (\<lambda>i. R ! i) (filter (\<lambda>i. i \<in> S) [0..<length R]))"
proof -
  let ?aToK = "fold (\<lambda>k m. m(Attrib k \<mapsto> k)) ks Map.empty"
  have dom: "(?aToK at \<noteq> None) = (at \<in> (\<lambda>i. R ! i) ` S)" for at
    unfolding aToK_dom ks[symmetric] by simp
  have "(\<lambda>(row, at). ?aToK at \<noteq> None) = (\<lambda>(row :: int list, at). at \<in> (\<lambda>i. R ! i) ` S)"
    unfolding dom by (rule refl)
  then have "filter (\<lambda>(row, at). ?aToK at \<noteq> None) (zip M R)
               = map (\<lambda>i. (M ! i, R ! i)) (filter (\<lambda>i. i \<in> S) [0..<length R])"
    using good_pairs_index[OF len dist S] by simp
  then show ?thesis
    by (simp add: good_rows_zip[OF len] sub_rows_def len comp_def)
qed


lemma dec_row:
  fixes lib :: "'k lib"
  assumes ord: "1 < Order lib"
    and inv: "\<forall>au\<in>set auths. auth_inv lib (NewMAABE lib) au"
    and disj: "auths_disjoint auths"
    and enc: "enc_one lib (NewMAABE lib) (map Pk auths) lambda omega r at = Inr (x1, x2, x3)"
    and lam: "lambda at = Some lam" and om: "omega at = Some om"
    and r: "r at = Some rat" "0 \<le> rat"
    and ct: "C1x ct at = Some x1" "C2x ct at = Some x2" "C3x ct at = Some x3"
    and k: "aToK at = Some k" "Attrib k = at"
    and gen: "au \<in> set auths" "GenerateAttribKeys lib au gid attribs = Inr kl" "k \<in> set kl"
    and hash: "HashG1 lib gid = Some h"
  shows "\<exists>e. egg_lambda lib ct aToK h at = Inr e
           \<and> e mod Order lib = (lam + h * om) mod Order lib"
proof -
  let ?a = "NewMAABE lib"
  have g: "maabe_g1 ?a = 1" "maabe_g2 ?a = 1" "maabe_gt ?a = 1"
    by (simp_all add: NewMAABE_gens[OF ord])
  from enc obtain pk where f: "find (\<lambda>pk. EggToAlpha pk at \<noteq> None) (map Pk auths) = Some pk"
    by (auto simp: enc_one_def split: option.splits)
  then have pk: "pk \<in> set (map Pk auths)" "EggToAlpha pk at \<noteq> None"
    by (auto simp: find_Some_iff)
  then obtain au' where au': "au' \<in> set auths" "pk = Pk au'" by auto
  from inv au'(1) have i': "auth_inv lib ?a au'" by blast
  from inv gen(1) have i: "auth_inv lib ?a au" by blast
  from GenerateAttribKeys_Inr_D[OF gen(2,3)] obtain a2 h2 al y where kk:
    "Maabe au = Some a2" "HashG1 lib gid = Some h2"
    "Alpha (Sk au) (Attrib k) = Some al" "Y (Sk au) (Attrib k) = Some y"
    "Key k = grp_Add lib (ScalarMult lib (maabe_g1 a2) al) (ScalarMult lib h2 y)"
    by blast
  from kk(1) i have a2: "a2 = ?a" by (simp add: auth_inv_def)
  from kk(2) hash have h2: "h2 = h" by simp
  from pk(2) au'(2) i' have "Alpha (Sk au') at \<noteq> None"
    by (auto simp: auth_inv_def)
  with kk(3) k(2) disj gen(1) au'(1) have same: "au = au'"
    unfolding auths_disjoint_def by (metis option.distinct(1))
  from i kk(3,4) k(2) have nn: "0 \<le> al" "0 \<le> y"
    by (auto simp: auth_inv_def)
  from i kk(3,4) k(2) same au'(2) have pkv:
    "EggToAlpha pk at = Some (ScalarMult lib 1 al)" "GToY pk at = Some (ScalarMult lib 1 y)"
    by (simp_all add: auth_inv_def g)
  let ?tL = "if 0 \<le> lam then ScalarMult lib 1 lam else ScalarMult lib (grp_Neg lib 1) \<bar>lam\<bar>"
  let ?tO = "if 0 \<le> om then ScalarMult lib 1 om else ScalarMult lib (grp_Neg lib 1) \<bar>om\<bar>"
  have ea: "enc_attrib lib ?a pk lambda omega r at = Inr (x1, x2, x3)"
    using enc f by (simp add: enc_one_def)
  note eo = enc_attrib_ok[of lambda at lam omega om r rat pk _ _ lib ?a, OF lam om r(1) pkv,
      unfolded g]
  from ea have "Inr (x1, x2, x3) =
      (Inr (grp_Add lib ?tL (ScalarMult lib (ScalarMult lib 1 al) rat),
            ScalarMult lib 1 rat,
            grp_Add lib (ScalarMult lib (ScalarMult lib 1 y) rat) ?tO) :: error + int \<times> int \<times> int)"
    by (simp only: eo)
  then have x: "x1 = grp_Add lib ?tL (ScalarMult lib (ScalarMult lib 1 al) rat)"
    "x2 = ScalarMult lib 1 rat"
    "x3 = grp_Add lib (ScalarMult lib (ScalarMult lib 1 y) rat) ?tO"
    by (simp_all only: sum.inject prod.inject)
  have key: "Key k = grp_Add lib (ScalarMult lib 1 al) (ScalarMult lib h y)"
    using kk(5) a2 h2 g by simp
  have el: "egg_lambda lib ct aToK h at =
              Inr (grp_Add lib (grp_Add lib x1 (Pair lib h x3)) (grp_Neg lib (Pair lib (Key k) x2)))"
    by (simp add: egg_lambda_def ct k deref_def Let_def)
  have "grp_Add lib (grp_Add lib x1 (Pair lib h x3)) (grp_Neg lib (Pair lib (Key k) x2)) mod Order lib
          = (lam + h * om) mod Order lib"
    by (rule egg_value[OF nn r(2) signed_one signed_one x(1) x(2) x(3) key])
  with el show ?thesis by blast
qed

lemma dec_sum:
  fixes lib :: "'k lib"
  assumes G: "rect G n d" and n: "0 < n" and d: "0 < d"
    and c: "solves (Transpose G) (unit_vec d) (Order lib) c"
    and GA: "length GA = n" "distinct GA"
    and rows: "\<forall>k<n. \<exists>e. egg_lambda lib ct aToK h (GA ! k) = Inr e
                 \<and> e mod Order lib = (Dot (G ! k) v + h * Dot (G ! k) w) mod Order lib"
    and v: "length v = d" and w: "length w = d" "w ! 0 = 0"
  shows "\<exists>cx el eggs. index_map GA c Map.empty = Inr cx
           \<and> egg_lambdas lib ct aToK h GA Map.empty = Inr el
           \<and> sum_eggs lib el cx GA (ScalarBaseMult lib 0) = Inr eggs
           \<and> eggs mod Order lib = (v ! 0) mod Order lib"
proof -
  let ?p = "Order lib"
  have lc: "length c = n" by (rule solves_Transpose(1)[OF G n d c])
  from index_map_ok[of GA c Map.empty] lc GA obtain cx where cx:
    "index_map GA c Map.empty = Inr cx" "\<forall>k<n. cx (GA ! k) = Some (c ! k)"
    by auto
  define E where "E at = (case egg_lambda lib ct aToK h at of Inr e \<Rightarrow> e | Inl _ \<Rightarrow> 0)" for at
  have Ek: "egg_lambda lib ct aToK h (GA ! k) = Inr (E (GA ! k))
            \<and> E (GA ! k) mod ?p = (Dot (G ! k) v + h * Dot (G ! k) w) mod ?p" if "k < n" for k
    using rows that by (auto simp: E_def)
  have Eall: "\<forall>at\<in>set GA. egg_lambda lib ct aToK h at = Inr (E at)"
    using Ek GA(1) by (auto simp: in_set_conv_nth)
  from egg_lambdas_ok[OF Eall, of Map.empty] obtain el where el:
    "egg_lambdas lib ct aToK h GA Map.empty = Inr el" "\<forall>at\<in>set GA. el at = Some (E at)"
    by blast
  define cf where "cf at = the (cx at)" for at
  have cfk: "cf (GA ! k) = c ! k" if "k < n" for k
    using cx(2) that by (simp add: cf_def)
  have "\<forall>at\<in>set GA. el at = Some (E at) \<and> cx at = Some (cf at)"
    using el(2) cx(2) GA(1) by (auto simp: in_set_conv_nth cf_def)
  from sum_eggs_ok[OF this, of lib "ScalarBaseMult lib 0"] obtain eggs where eggs:
    "sum_eggs lib el cx GA (ScalarBaseMult lib 0) = Inr eggs"
    "eggs mod ?p = (ScalarBaseMult lib 0 + sum_list (map (\<lambda>at. cf at * E at) GA)) mod ?p"
    by blast
  have z: "ScalarBaseMult lib 0 = 0"
    by (simp add: ScalarBaseMult_def ScalarMult_def)
  have "sum_list (map (\<lambda>at. cf at * E at) GA)
          = (\<Sum>k = 0..<length (map (\<lambda>at. cf at * E at) GA). map (\<lambda>at. cf at * E at) GA ! k)"
    by (rule sum_list_sum_nth)
  also have "\<dots> = (\<Sum>k<n. c ! k * E (GA ! k))"
    using GA(1) by (simp add: atLeast0LessThan cfk)
  finally have s1: "sum_list (map (\<lambda>at. cf at * E at) GA) = (\<Sum>k<n. c ! k * E (GA ! k))" .
  have "(\<Sum>k<n. c ! k * E (GA ! k)) mod ?p
          = (\<Sum>k<n. c ! k * (Dot (G ! k) v + h * Dot (G ! k) w)) mod ?p"
  proof (rule sum_mod_cong)
    fix k assume "k \<in> {..<n}"
    then have "E (GA ! k) mod ?p = (Dot (G ! k) v + h * Dot (G ! k) w) mod ?p"
      using Ek by simp
    then show "c ! k * E (GA ! k) mod ?p = c ! k * (Dot (G ! k) v + h * Dot (G ! k) w) mod ?p"
      by (rule mod_mult_cong[OF refl])
  qed
  also have "(\<Sum>k<n. c ! k * (Dot (G ! k) v + h * Dot (G ! k) w))
               = (\<Sum>k<n. c ! k * Dot (G ! k) v) + h * (\<Sum>k<n. c ! k * Dot (G ! k) w)"
    by (simp add: algebra_simps sum.distrib sum_distrib_left)
  also have "((\<Sum>k<n. c ! k * Dot (G ! k) v) + h * (\<Sum>k<n. c ! k * Dot (G ! k) w)) mod ?p
               = (v ! 0 + h * w ! 0) mod ?p"
    by (intro mod_add_cong mod_mult_cong refl span_dot[OF G n d c] v w(1))
  finally have "(\<Sum>k<n. c ! k * E (GA ! k)) mod ?p = (v ! 0) mod ?p"
    using w(2) by simp
  with eggs(2) have "eggs mod ?p = (v ! 0) mod ?p"
    by (simp add: z s1)
  with cx(1) el(1) eggs(1) show ?thesis by blast
qed


subsection \<open>Authorities created by NewMAABEAuth\<close>

lemma index_map_range:
  "index_map ats xs m = Inr m' \<Longrightarrow> m' x = Some v \<Longrightarrow> v \<in> set xs \<or> m x = Some v"
proof (induction ats xs m rule: index_map.induct)
  case (1 xs m)
  then show ?case by simp
next
  case (2 at ats m)
  then show ?case by simp
next
  case (3 at ats x' xs m)
  from "3.prems" have "index_map ats xs (m(at \<mapsto> x')) = Inr m'" by simp
  from "3.IH"[OF this "3.prems"(2)] show ?case by (auto split: if_splits)
qed

lemma pub_maps_ok:
  assumes "\<forall>at\<in>set ats. alpha at \<noteq> None \<and> y at \<noteq> None"
  shows "\<exists>e' g'. pub_maps lib a alpha y ats (e, g) = Inr (e', g')
     \<and> (\<forall>at\<in>set ats. e' at = map_option (ScalarMult lib (maabe_gt a)) (alpha at)
                      \<and> g' at = map_option (ScalarMult lib (maabe_g2 a)) (y at))
     \<and> (\<forall>at. at \<notin> set ats \<longrightarrow> e' at = e at \<and> g' at = g at)"
  using assms
proof (induction ats arbitrary: e g)
  case Nil
  then show ?case by simp
next
  case (Cons at ats)
  from Cons.prems obtain al yv where v: "alpha at = Some al" "y at = Some yv" by auto
  from Cons.prems have "\<forall>at\<in>set ats. alpha at \<noteq> None \<and> y at \<noteq> None" by simp
  from Cons.IH[OF this, of "e(at \<mapsto> ScalarMult lib (maabe_gt a) al)"
      "g(at \<mapsto> ScalarMult lib (maabe_g2 a) yv)"]
  obtain e' g' where r:
    "pub_maps lib a alpha y ats (e(at \<mapsto> ScalarMult lib (maabe_gt a) al),
        g(at \<mapsto> ScalarMult lib (maabe_g2 a) yv)) = Inr (e', g')"
    "\<forall>x\<in>set ats. e' x = map_option (ScalarMult lib (maabe_gt a)) (alpha x)
                      \<and> g' x = map_option (ScalarMult lib (maabe_g2 a)) (y x)"
    "\<forall>x. x \<notin> set ats \<longrightarrow> e' x = (e(at \<mapsto> ScalarMult lib (maabe_gt a) al)) x
                        \<and> g' x = (g(at \<mapsto> ScalarMult lib (maabe_g2 a) yv)) x"
    by blast
  have 1: "pub_maps lib a alpha y (at # ats) (e, g) = Inr (e', g')"
    using v r(1) by (simp add: deref_def)
  have 2: "e' x = map_option (ScalarMult lib (maabe_gt a)) (alpha x)
           \<and> g' x = map_option (ScalarMult lib (maabe_g2 a)) (y x)" if "x \<in> set (at # ats)" for x
  proof (cases "x \<in> set ats")
    case True
    then show ?thesis using r(2) by blast
  next
    case False
    with that have "x = at" by simp
    with False r(3) v show ?thesis by simp
  qed
  have 3: "\<forall>x. x \<notin> set (at # ats) \<longrightarrow> e' x = e x \<and> g' x = g x"
    using r(3) by simp
  from 1 2 3 show ?case by blast
qed

text \<open>
  What \<open>NewMAABEAuth\<close> returns satisfies the invariant of authorities, when the uniform
  sampler succeeds and draws from \<open>[0, p)\<close>.
\<close>

lemma NewMAABEAuth_inv:
  assumes attribs: "attribs \<noteq> []" and aid: "aid \<noteq> []"
    and sa: "src_alpha = Some fa" "\<forall>i. 0 \<le> fa i"
    and sy: "src_y = Some fy" "\<forall>i. 0 \<le> fy i"
  shows "\<exists>auth. NewMAABEAuth lib a src_alpha src_y aid attribs = Inr auth
           \<and> auth_inv lib a auth
           \<and> (\<forall>at. Alpha (Sk auth) at \<noteq> None \<longleftrightarrow> at \<in> set attribs)"
proof -
  let ?n = "length attribs"
  let ?aI = "map fa [0..<?n]" and ?yI = "map fy [0..<?n]"
  from index_map_ok[of attribs ?aI Map.empty] obtain alpha where al:
    "index_map attribs ?aI Map.empty = Inr alpha"
    "\<forall>x. x \<notin> set attribs \<longrightarrow> alpha x = None"
    "\<forall>x\<in>set attribs. alpha x \<noteq> None"
    by auto
  from index_map_ok[of attribs ?yI Map.empty] obtain y where y:
    "index_map attribs ?yI Map.empty = Inr y"
    "\<forall>x. x \<notin> set attribs \<longrightarrow> y x = None"
    "\<forall>x\<in>set attribs. y x \<noteq> None"
    by auto
  have "\<forall>at\<in>set attribs. alpha at \<noteq> None \<and> y at \<noteq> None" using al(3) y(3) by simp
  from pub_maps_ok[OF this, of lib a Map.empty Map.empty] obtain e g where p:
    "pub_maps lib a alpha y attribs (Map.empty, Map.empty) = Inr (e, g)"
    "\<forall>at\<in>set attribs. e at = map_option (ScalarMult lib (maabe_gt a)) (alpha at)
                      \<and> g at = map_option (ScalarMult lib (maabe_g2 a)) (y at)"
    "\<forall>at. at \<notin> set attribs \<longrightarrow> e at = None \<and> g at = None"
    by auto
  define auth where "auth = \<lparr>ID = aid, Maabe = Some a,
             Pk = \<lparr>pk_Attribs = attribs, EggToAlpha = e, GToY = g\<rparr>,
             Sk = \<lparr>sk_Attribs = attribs, Alpha = alpha, Y = y\<rparr>\<rparr>"
  have run: "NewMAABEAuth lib a src_alpha src_y aid attribs = Inr auth"
    using attribs aid
    by (simp add: NewMAABEAuth_def Let_def sa(1) sy(1) NewRandomVector_Some al(1) y(1) p(1) auth_def)
  have pos_a: "0 \<le> v" if "alpha at = Some v" for at v
    using index_map_range[OF al(1) that] sa(2) by auto
  have pos_y: "0 \<le> v" if "y at = Some v" for at v
    using index_map_range[OF y(1) that] sy(2) by auto
  have e_all: "e at = map_option (ScalarMult lib (maabe_gt a)) (alpha at)" for at
    using p(2,3) al(2) by (cases "at \<in> set attribs") auto
  have g_all: "g at = map_option (ScalarMult lib (maabe_g2 a)) (y at)" for at
    using p(2,3) y(2) by (cases "at \<in> set attribs") auto
  have dom: "(alpha at \<noteq> None) = (y at \<noteq> None)" for at
    using al(2,3) y(2,3) by (cases "at \<in> set attribs") auto
  have "auth_inv lib a auth"
    unfolding auth_inv_def using e_all g_all dom pos_a pos_y by (simp add: auth_def)
  moreover have "\<forall>at. Alpha (Sk auth) at \<noteq> None \<longleftrightarrow> at \<in> set attribs"
    using al(2,3) by (auto simp: auth_def)
  ultimately show ?thesis using run by blast
qed

text \<open>
  Claim C2. For a non-empty message, an MSP with an injective \<open>RowToAttrib\<close>, public
  keys of authorities that cover every attribute of the MSP, and a set \<open>S\<close> of row indices
  whose rows span \<open>(1, 0, ..., 0)\<close> modulo the group order: if the attribute keys are
  those of exactly the attributes of \<open>S\<close>, issued under one \<open>gid\<close> by the authorities
  holding them, then \<open>Decrypt\<close> applied to the ciphertext of \<open>Encrypt\<close> returns the
  message. The authorities hold disjoint sets of attributes and satisfy the invariant
  of their constructors; the draws are those of the uniform sampler (not negative); AES
  in CBC mode decrypts what it encrypts; the solver meets its contract on the system
  of the rows of \<open>S\<close>.
\<close>

theorem MAABE_round_trip:
  fixes lib :: "'k lib"
  assumes ord: "1 < Order lib"
    and cbc: "cbc_ok lib"
    and msg: "msg \<noteq> []"
    and rectM: "rect (Mat msp) (length (RowToAttrib msp)) d" and d: "0 < d"
    and dist: "distinct (RowToAttrib msp)"
    and inv: "\<forall>au\<in>set auths. auth_inv lib (NewMAABE lib) au"
    and disj: "auths_disjoint auths"
    and cov: "\<forall>at\<in>set (RowToAttrib msp). \<exists>pk\<in>set (map Pk auths). EggToAlpha pk at \<noteq> None"
    and dk: "draw_symKey rnd = Some ksym" "0 \<le> ksym"
    and div: "draw_iv rnd = Some ivf"
    and dv: "draw_v rnd = Some fv" "0 \<le> fv 0"
    and dw: "draw_w rnd = Some fw"
    and dr: "draw_rI rnd = Some fr" "\<forall>i. 0 \<le> fr i"
    and keys: "\<forall>k\<in>set ks. \<exists>au\<in>set auths. \<exists>attribs kl.
                 GenerateAttribKeys lib au gid attribs = Inr kl \<and> k \<in> set kl"
    and S: "S \<subseteq> {..<length (RowToAttrib msp)}"
      "Attrib ` set ks = (\<lambda>i. RowToAttrib msp ! i) ` S"
    and span: "spans_unit (Mat msp) S d (Order lib)"
    and solver: "solver_ok lib (Transpose (sub_rows (Mat msp) S)) (unit_vec d) (Order lib)"
  shows "\<exists>ct. MAABE_Encrypt lib (NewMAABE lib) rnd msg msp (map Pk auths) = Inr ct
           \<and> MAABE_Decrypt lib (NewMAABE lib) ct ks = Inr msg"
proof -
  let ?a = "NewMAABE lib" and ?p = "Order lib" and ?M = "Mat msp" and ?R = "RowToAttrib msp"
  let ?m = "length ?R" and ?pks = "map Pk auths"
  let ?idx = "filter (\<lambda>i. i \<in> S) [0..<?m]"
  let ?G = "sub_rows ?M S" and ?GA = "map (\<lambda>i. ?R ! i) ?idx"
  let ?n = "length ?idx"
  let ?v = "map fv [0..<d]" and ?w = "(map fw [0..<d])[0 := 0]"
  have g: "maabe_g1 ?a = 1" "maabe_g2 ?a = 1" "maabe_gt ?a = 1" "maabe_P ?a = ?p"
    by (simp_all add: NewMAABE_gens[OF ord])
  have lenM: "length ?M = ?m" using rectM by (simp add: rect_def)
  \<comment> \<open>the set of rows is not empty\<close>
  have S_ne: "S \<noteq> {}"
  proof
    assume "S = {}"
    with span d have "(0::int) mod ?p = unit_vec d ! 0 mod ?p"
      by (auto simp: spans_unit_def)
    with d ord show False by (simp add: unit_vec_nth)
  qed
  have n: "0 < ?n" by (rule idx_nonempty[OF S(1) S_ne])
  from S(1) S_ne have m: "0 < ?m" by auto
  have colsM: "Cols ?M = d" using Cols_rect[OF rectM m] .
  have ks_ne: "ks \<noteq> []" using S(2) S_ne by auto
  \<comment> \<open>the keys\<close>
  have key_gid: "Gid k = gid" if "k \<in> set ks" for k
    using keys that GenerateAttribKeys_Inr_D by blast
  from ks_ne have "ks ! 0 \<in> set ks" by simp
  with keys obtain au0 attribs0 kl0 where
    "GenerateAttribKeys lib au0 gid attribs0 = Inr kl0" "ks ! 0 \<in> set kl0" by blast
  from GenerateAttribKeys_Inr_D[OF this] obtain h where hash: "HashG1 lib gid = Some h" by blast
  have gid0: "Gid (ks ! 0) = gid" using key_gid ks_ne by simp
  have no_mismatch: "\<not> list_ex (\<lambda>k. Gid k \<noteq> Gid (ks ! 0)) ks"
    using key_gid gid0 by (simp add: list_ex_iff)
  \<comment> \<open>the public keys\<close>
  have pkwf: "\<forall>pk\<in>set ?pks. \<forall>at. EggToAlpha pk at \<noteq> None \<longrightarrow> GToY pk at \<noteq> None"
  proof (intro ballI allI impI)
    fix pk at assume "pk \<in> set ?pks" and e: "EggToAlpha pk at \<noteq> None"
    then obtain au where au: "au \<in> set auths" "pk = Pk au" by auto
    with inv have i: "auth_inv lib ?a au" by blast
    from e au(2) i have "Alpha (Sk au) at \<noteq> None" by (auto simp: auth_inv_def)
    with i have "Y (Sk au) at \<noteq> None" by (simp add: auth_inv_def)
    with i au(2) show "GToY pk at \<noteq> None" by (auto simp: auth_inv_def)
  qed
  \<comment> \<open>encryption\<close>
  define symKey where "symKey = ScalarBaseMult lib ksym"
  define iv where "iv = map ivf [0..<BlockSize]"
  define symEnc where "symEnc = CBCEncrypter lib (Sum256 lib symKey) iv (pkcs7_pad msg)"
  have env: "enc_envelope lib rnd msg = Inr (symKey, symEnc, iv)"
    unfolding symKey_def iv_def symEnc_def by (rule enc_envelope_ok[OF dk(1) div])
  have wf: "length ?R = length ?M" using lenM by simp
  from enc_shares_covered[OF wf pkwf dv(1) dw dr(1) cov, of lib ?a symKey]
  obtain lambda omega r c1 c2 c3 where
    sh: "enc_shares lib ?a rnd msp ?pks symKey =
           Inr (grp_Add lib symKey (ScalarMult lib (maabe_gt ?a) (map fv [0..<Cols ?M] ! 0)),
                c1, c2, c3)"
    and rowsE: "\<forall>at\<in>set ?R.
           enc_one lib ?a ?pks lambda omega r at = Inr (the (c1 at), the (c2 at), the (c3 at))
           \<and> c1 at \<noteq> None \<and> c2 at \<noteq> None \<and> c3 at \<noteq> None"
    and vals: "distinct ?R \<longrightarrow> (\<forall>i<length ?M.
          lambda (?R ! i) = Some (Dot (?M ! i) (map fv [0..<Cols ?M]))
        \<and> omega (?R ! i) = Some (Dot (?M ! i) ((map fw [0..<Cols ?M])[0 := 0]))
        \<and> r (?R ! i) = Some (fr i))"
    by blast
  define c0 where "c0 = grp_Add lib symKey (ScalarMult lib 1 (fv 0))"
  have sh': "enc_shares lib ?a rnd msp ?pks symKey = Inr (c0, c1, c2, c3)"
    using sh d by (simp add: c0_def colsM g)
  define ct where
    "ct = \<lparr>C0 = c0, C1x = c1, C2x = c2, C3x = c3, Msp = msp, SymEnc = symEnc, Iv = iv\<rparr>"
  have enc: "MAABE_Encrypt lib ?a rnd msg msp ?pks = Inr ct"
    using m d msg dist
    by (simp add: MAABE_Encrypt_def lenM colsM attribs_fresh_iff env sh' ct_def)
  \<comment> \<open>decryption: the rows that have a key\<close>
  let ?aToK = "fold (\<lambda>k m. m(Attrib k \<mapsto> k)) ks Map.empty"
  have gr: "good_rows ?aToK ?R ?M = Inr (?G, ?GA)"
    by (rule good_rows_sub[OF lenM dist S])
  have rectG: "rect ?G ?n d" by (rule sub_rows_rect[OF rectM])
  have colsG: "Cols ?G = d" by (rule Cols_rect[OF rectG n])
  have nm: "NewMatrix ?G = Inr ?G"
    using rectG by (simp add: NewMatrix_def colsG rect_def)
  from span_list[OF rectM S(1) S_ne d span] solver
  obtain c where c: "GaussianEliminationSolver lib (Transpose ?G) (unit_vec d) ?p = Some c"
    "solves (Transpose ?G) (unit_vec d) ?p c"
    by (auto simp: solver_ok_def)
  have idx_lt: "?idx ! k < ?m" "?idx ! k \<in> S" if "k < ?n" for k
  proof -
    from that have "?idx ! k \<in> set ?idx" by (rule nth_mem)
    then show "?idx ! k < ?m" "?idx ! k \<in> S" by simp_all
  qed
  have distGA: "distinct ?GA"
  proof -
    have "inj_on (\<lambda>i. ?R ! i) (set ?idx)"
      using dist by (auto simp: inj_on_def nth_eq_iff_index_eq)
    then show ?thesis by (simp add: distinct_map)
  qed
  have lenv: "length ?v = d" and lenw: "length ?w = d" and w0: "?w ! 0 = 0"
    using d by simp_all
  have Gk: "?G ! k = ?M ! (?idx ! k)" if "k < ?n" for k
    using that by (simp add: sub_rows_def lenM)
  \<comment> \<open>decryption: the share of every such row\<close>
  have rows: "\<forall>k<?n. \<exists>e. egg_lambda lib ct ?aToK h (?GA ! k) = Inr e
                 \<and> e mod ?p = (Dot (?G ! k) ?v + h * Dot (?G ! k) ?w) mod ?p"
  proof (intro allI impI)
    fix k assume k: "k < ?n"
    let ?i = "?idx ! k"
    let ?at = "?R ! ?i"
    have i: "?i < ?m" "?i \<in> S" using idx_lt[OF k] .
    then have at: "?at \<in> set ?R" by simp
    from rowsE at have e1: "enc_one lib ?a ?pks lambda omega r ?at
        = Inr (the (c1 ?at), the (c2 ?at), the (c3 ?at))"
      and cs: "C1x ct ?at = Some (the (c1 ?at))" "C2x ct ?at = Some (the (c2 ?at))"
        "C3x ct ?at = Some (the (c3 ?at))"
      by (auto simp: ct_def)
    from vals dist i(1) lenM have lv: "lambda ?at = Some (Dot (?M ! ?i) ?v)"
      and ov: "omega ?at = Some (Dot (?M ! ?i) ?w)" and rv: "r ?at = Some (fr ?i)"
      by (simp_all add: colsM)
    from i(2) S(2) have "?at \<in> Attrib ` set ks" by blast
    then have "?aToK ?at \<noteq> None" unfolding aToK_dom by (rule disjI1)
    then obtain key where key: "?aToK ?at = Some key" by auto
    from aToK_lookup[OF this] have kin: "key \<in> set ks" "Attrib key = ?at" by simp_all
    from keys kin(1) obtain au attribs kl where gen:
      "au \<in> set auths" "GenerateAttribKeys lib au gid attribs = Inr kl" "key \<in> set kl" by blast
    from dr(2) have rpos: "0 \<le> fr ?i" by simp
    from ord inv disj e1 lv ov rv rpos cs key kin(2) gen hash
    have "\<exists>e. egg_lambda lib ct ?aToK h ?at = Inr e
            \<and> e mod ?p = (Dot (?M ! ?i) ?v + h * Dot (?M ! ?i) ?w) mod ?p"
      by (rule dec_row)
    then obtain e where "egg_lambda lib ct ?aToK h ?at = Inr e"
      "e mod ?p = (Dot (?M ! ?i) ?v + h * Dot (?M ! ?i) ?w) mod ?p" by blast
    then show "\<exists>e. egg_lambda lib ct ?aToK h (?GA ! k) = Inr e
                 \<and> e mod ?p = (Dot (?G ! k) ?v + h * Dot (?G ! k) ?w) mod ?p"
      using k by (simp add: Gk)
  qed
  have lenGA: "length ?GA = ?n" by simp
  from dec_sum[OF rectG n d c(2) lenGA distGA rows lenv lenw w0]
  obtain cx el eggs where ds:
    "index_map ?GA c Map.empty = Inr cx"
    "egg_lambdas lib ct ?aToK h ?GA Map.empty = Inr el"
    "sum_eggs lib el cx ?GA (ScalarBaseMult lib 0) = Inr eggs"
    "eggs mod ?p = (?v ! 0) mod ?p"
    by blast
  \<comment> \<open>decryption: the session key\<close>
  have v0: "?v ! 0 = fv 0" using d by simp
  have sk: "grp_Add lib (C0 ct) (grp_Neg lib eggs) = symKey"
  proof -
    have "grp_Add lib (C0 ct) (grp_Neg lib eggs) = (symKey + fv 0 - eggs) mod ?p"
      using dv(2) by (simp add: ct_def c0_def grp_Add_def grp_Neg_def ScalarMult_def mod_simps)
    also have "\<dots> = (symKey + fv 0 - fv 0) mod ?p"
      using ds(4) v0 by (intro mod_diff_cong refl) simp
    also have "\<dots> = symKey"
      using dk(2) by (simp add: symKey_def ScalarBaseMult_def ScalarMult_def)
    finally show ?thesis .
  qed
  \<comment> \<open>decryption: the envelope\<close>
  have ivlen: "length (Iv ct) = BlockSize" by (simp add: ct_def iv_def)
  from cbc pkcs7_pad_length[of msg] have cb:
    "length symEnc mod BlockSize = 0"
    "CBCDecrypter lib (Sum256 lib symKey) iv symEnc = pkcs7_pad msg"
    by (simp_all add: cbc_ok_def symEnc_def)
  have cr: "CryptBlocks (CBCDecrypter lib (Sum256 lib symKey) (Iv ct)) (SymEnc ct) = Inr (pkcs7_pad msg)"
    using cb by (simp add: CryptBlocks_def ct_def)
  have one: "(replicate d 0)[0 := 1] = unit_vec d" by (simp add: unit_vec_def)
  have msp_ct: "Msp ct = msp" by (simp add: ct_def)
  have dec: "MAABE_Decrypt lib ?a ct ks = Inr msg"
    unfolding MAABE_Decrypt_def Let_def msp_ct gid0 hash
    using ks_ne no_mismatch[unfolded gid0] d
    by (simp add: gr nm colsG one g c(1) ds(1,2,3) sk ivlen cr unpad_pkcs7_pad)
  from enc dec show ?thesis by blast
qed


theorem MAABE_round_trip_witness:
  "\<exists>ct. MAABE_Encrypt lib7 (NewMAABE lib7) draws1 ''hi'' msp_ab (map Pk [auth1, auth2]) = Inr ct
     \<and> MAABE_Decrypt lib7 (NewMAABE lib7) ct keys_alice = Inr ''hi''"
proof -
  have ord: "1 < Order lib7" by (simp add: lib7_def)
  have cbc: "cbc_ok lib7" by (simp add: cbc_ok_def lib7_def)
  have msg: "''hi'' \<noteq> []" by simp
  have rectM: "rect (Mat msp_ab) (length (RowToAttrib msp_ab)) 2"
    by (simp add: rect_def msp_ab_def)
  have d: "0 < (2 :: nat)" by simp
  have dist: "distinct (RowToAttrib msp_ab)" by (simp add: msp_ab_def)
  have gens: "NewMAABE lib7 = \<lparr>maabe_P = 7, maabe_g1 = 1, maabe_g2 = 1, maabe_gt = 1\<rparr>"
    using NewMAABE_gens[OF ord] by (simp add: lib7_def)
  have sm: "ScalarMult lib7 x k = (if 0 \<le> k then (x * k) mod 7 else 0)" for x k
    by (simp add: ScalarMult_def lib7_def)
  have i1: "auth_inv lib7 (NewMAABE lib7) auth1"
    unfolding auth_inv_def gens by (simp add: auth1_def gens sm)
  have i2: "auth_inv lib7 (NewMAABE lib7) auth2"
    unfolding auth_inv_def gens by (simp add: auth2_def gens sm)
  from i1 i2 have inv: "\<forall>au\<in>set [auth1, auth2]. auth_inv lib7 (NewMAABE lib7) au" by simp
  have disj: "auths_disjoint [auth1, auth2]"
    by (auto simp: auths_disjoint_def auth1_def auth2_def split: if_splits)
  have cov: "\<forall>at\<in>set (RowToAttrib msp_ab). \<exists>pk\<in>set (map Pk [auth1, auth2]). EggToAlpha pk at \<noteq> None"
    by (simp add: msp_ab_def auth1_def auth2_def)
  have dk: "draw_symKey draws1 = Some 3" "(0::int) \<le> 3"
    and div: "draw_iv draws1 = Some (\<lambda>i. CHR ''i'')"
    and dv: "draw_v draws1 = Some (\<lambda>i. int i + 2)" "0 \<le> (\<lambda>i. int i + 2) 0"
    and dw: "draw_w draws1 = Some (\<lambda>i. 4)"
    and dr: "draw_rI draws1 = Some (\<lambda>i. int i + 1)" "\<forall>i. 0 \<le> (\<lambda>i. int i + 1) i"
    by (simp_all add: draws1_def)
  have ga: "GenerateAttribKeys lib7 auth1 ''alice'' [''a''] = Inr [\<lparr>Gid = ''alice'', Attrib = ''a'', Key = 0\<rparr>]"
    by code_simp
  have gb: "GenerateAttribKeys lib7 auth2 ''alice'' [''b''] = Inr [\<lparr>Gid = ''alice'', Attrib = ''b'', Key = 2\<rparr>]"
    by code_simp
  have keys: "\<forall>k\<in>set keys_alice. \<exists>au\<in>set [auth1, auth2]. \<exists>attribs kl.
                 GenerateAttribKeys lib7 au ''alice'' attribs = Inr kl \<and> k \<in> set kl"
  proof
    fix k assume "k \<in> set keys_alice"
    then consider "k = \<lparr>Gid = ''alice'', Attrib = ''a'', Key = 0\<rparr>"
      | "k = \<lparr>Gid = ''alice'', Attrib = ''b'', Key = 2\<rparr>"
      by (auto simp: keys_alice_def)
    then show "\<exists>au\<in>set [auth1, auth2]. \<exists>attribs kl.
                 GenerateAttribKeys lib7 au ''alice'' attribs = Inr kl \<and> k \<in> set kl"
    proof cases
      case 1
      with ga have "GenerateAttribKeys lib7 auth1 ''alice'' [''a''] = Inr [k] \<and> k \<in> set [k]" by simp
      moreover have "auth1 \<in> set [auth1, auth2]" by simp
      ultimately show ?thesis by blast
    next
      case 2
      with gb have "GenerateAttribKeys lib7 auth2 ''alice'' [''b''] = Inr [k] \<and> k \<in> set [k]" by simp
      moreover have "auth2 \<in> set [auth1, auth2]" by simp
      ultimately show ?thesis by blast
    qed
  qed
  have S: "{0, 1} \<subseteq> {..<length (RowToAttrib msp_ab)}"
    "Attrib ` set keys_alice = (\<lambda>i. RowToAttrib msp_ab ! i) ` {0, 1}"
    by (auto simp: msp_ab_def keys_alice_def)
  have "\<forall>j<2. (\<Sum>i\<in>{0, 1 :: nat}. (\<lambda>_. 1 :: int) i * Mat msp_ab ! i ! j) mod 7 = unit_vec 2 ! j mod 7"
    by (auto simp: msp_ab_def unit_vec_def less_Suc_eq numeral_2_eq_2)
  note sp = this
  have o7: "Order lib7 = 7" by (simp add: lib7_def)
  have span: "spans_unit (Mat msp_ab) {0, 1} 2 (Order lib7)"
    unfolding spans_unit_def o7 by (rule exI[where x = "\<lambda>_. 1"]) (rule sp)
  have sr: "Transpose (sub_rows (Mat msp_ab) {0, 1}) = [[1, 0], [1, - 1]]"
    by (simp add: sub_rows_def msp_ab_def Transpose_def Cols_def upt_conv_Cons)
  have uv: "unit_vec 2 = [1, 0]" by (simp add: unit_vec_def numeral_2_eq_2)
  have solver: "solver_ok lib7 (Transpose (sub_rows (Mat msp_ab) {0, 1})) (unit_vec 2) (Order lib7)"
    unfolding sr uv solver_ok_def
    by (simp add: lib7_def solves_def Cols_def Dot_def)
  show ?thesis
  proof (rule MAABE_round_trip[where d = 2 and ksym = 3 and ivf = "\<lambda>i. CHR ''i''"
        and fv = "\<lambda>i. int i + 2" and fw = "\<lambda>i. 4" and fr = "\<lambda>i. int i + 1"
        and gid = "''alice''" and S = "{0, 1}"])
    show "\<forall>at\<in>set (RowToAttrib msp_ab). \<exists>pk\<in>set (map Pk [auth1, auth2]). EggToAlpha pk at \<noteq> None"
      by (rule cov)
    show "\<forall>k\<in>set keys_alice. \<exists>au\<in>set [auth1, auth2]. \<exists>attribs kl.
                 GenerateAttribKeys lib7 au ''alice'' attribs = Inr kl \<and> k \<in> set kl"
      by (rule keys)
    show "Attrib ` set keys_alice = (\<lambda>i. RowToAttrib msp_ab ! i) ` {0, 1}"
      by (rule S(2))
  qed (use ord cbc rectM dist inv disj dk div dv dw dr S(1) span solver in simp_all)
qed


end
